theory Spec2Isabelle
  imports Complex_Main
begin

section \<open>Floating-point cells\<close>

text \<open>
  Every numeric column of the program is a pandas \<^verbatim>\<open>float64\<close> column.  A cell is
  the real number a finite IEEE 754 binary64 value denotes, or one of the three special
  values.  The sign of zero is not modelled.
\<close>

datatype fval = Fin real | PInf | NInf | NaN

text \<open>
  Rounding to binary64, to nearest with ties to even.  \<open>expo64 y\<close> is the binary exponent
  of \<open>y \<ge> 0\<close>, kept between \<open>- 1022\<close> (below it the values are subnormal and share the
  spacing \<open>2 powi (- 1074)\<close>) and \<open>1024\<close> (from where every value overflows).  A real of
  exponent \<open>e\<close> is rounded to a multiple of \<open>2 powi (e - 52)\<close>, and a result of
  magnitude \<open>2 ^ 1024\<close> or more is an infinity.
\<close>

fun expo_up :: "nat \<Rightarrow> real \<Rightarrow> int \<Rightarrow> int" where
  "expo_up 0 y e = e"
| "expo_up (Suc n) y e = (if y < 2 powi (e + 1) then e else expo_up n y (e + 1))"

fun expo_down :: "nat \<Rightarrow> real \<Rightarrow> int \<Rightarrow> int" where
  "expo_down 0 y e = e"
| "expo_down (Suc n) y e = (if 2 powi e \<le> y then e else expo_down n y (e - 1))"

definition expo64 :: "real \<Rightarrow> int" where
  "expo64 y = (if 1 \<le> y then expo_up 1024 y 0 else expo_down 1021 y (- 1))"

definition round_even :: "real \<Rightarrow> int" where
  "round_even y =
     (let f = \<lfloor>y\<rfloor>; d = y - of_int f
      in if d < 1 / 2 then f else if 1 / 2 < d then f + 1 else if even f then f else f + 1)"

definition round64 :: "real \<Rightarrow> fval" where
  "round64 x =
     (let e = expo64 \<bar>x\<bar>;
          q = 2 powi (e - 52);
          r = of_int (round_even (x / q)) * q
      in if \<bar>r\<bar> < 2 ^ 1024 then Fin r else if 0 < x then PInf else NInf)"

definition float64 :: "real \<Rightarrow> bool" where
  "float64 x = (round64 x = Fin x)"

text \<open>
  The constants of the error analysis: the unit roundoff of binary64, half the spacing of
  the subnormal values, and a bound on the accumulated relative error of a thousand
  roundings.
\<close>

definition u64 :: real where "u64 = 1 / 2 ^ 53"

definition eta64 :: real where "eta64 = 1 / 2 ^ 1075"

definition eps64 :: real where "eps64 = 1 / 2 ^ 42"

text \<open>
  The arithmetic of NumPy on \<^verbatim>\<open>float64\<close>, which raises nothing: each operation on
  finite values rounds its exact result once, and the special values follow IEEE 754.
\<close>

fun fadd :: "fval \<Rightarrow> fval \<Rightarrow> fval" where
  "fadd NaN _ = NaN"
| "fadd _ NaN = NaN"
| "fadd (Fin a) (Fin b) = round64 (a + b)"
| "fadd PInf NInf = NaN"
| "fadd NInf PInf = NaN"
| "fadd PInf _ = PInf"
| "fadd _ PInf = PInf"
| "fadd NInf _ = NInf"
| "fadd _ NInf = NInf"

fun fdiv :: "fval \<Rightarrow> fval \<Rightarrow> fval" where
  "fdiv NaN _ = NaN"
| "fdiv _ NaN = NaN"
| "fdiv (Fin a) (Fin b) =
     (if b \<noteq> 0 then round64 (a / b)
      else if 0 < a then PInf else if a < 0 then NInf else NaN)"
| "fdiv (Fin a) _ = Fin 0"
| "fdiv PInf (Fin b) = (if 0 \<le> b then PInf else NInf)"
| "fdiv NInf (Fin b) = (if 0 \<le> b then NInf else PInf)"
| "fdiv _ _ = NaN"

fun fmul :: "fval \<Rightarrow> fval \<Rightarrow> fval" where
  "fmul NaN _ = NaN"
| "fmul _ NaN = NaN"
| "fmul (Fin a) (Fin b) = round64 (a * b)"
| "fmul (Fin a) PInf = (if 0 < a then PInf else if a < 0 then NInf else NaN)"
| "fmul (Fin a) NInf = (if 0 < a then NInf else if a < 0 then PInf else NaN)"
| "fmul PInf (Fin b) = (if 0 < b then PInf else if b < 0 then NInf else NaN)"
| "fmul NInf (Fin b) = (if 0 < b then NInf else if b < 0 then PInf else NaN)"
| "fmul PInf PInf = PInf"
| "fmul NInf NInf = PInf"
| "fmul PInf NInf = NInf"
| "fmul NInf PInf = NInf"

text \<open>
  The pandas reductions \<^verbatim>\<open>DataFrame.sum\<close>, \<^verbatim>\<open>Series.sum\<close> and
  \<^verbatim>\<open>GroupBy.sum\<close> run with \<^verbatim>\<open>skipna=True\<close> and \<^verbatim>\<open>min_count=0\<close>, the defaults the
  program leaves in place: a NaN cell is skipped, and the sum of no cell is \<open>0.0\<close>.
  A sum adds its cells in order, from \<open>0.0\<close>, with one rounding for each addition; the
  compensation term that the grouped sum of pandas carries beside it is left out.
\<close>

definition skipna_add :: "fval \<Rightarrow> fval \<Rightarrow> fval" where
  "skipna_add acc v = (if v = NaN then acc else fadd acc v)"

definition sum_skipna :: "fval list \<Rightarrow> fval" where
  "sum_skipna vs = foldl skipna_add (Fin 0) vs"

section \<open>Data frames of the dashboard (mixPlot.py)\<close>

text \<open>
  A date is a calendar triple (year, month, day).  A frame has one \<^verbatim>\<open>Date\<close> column and
  a list of named numeric columns; a row carries its date and one cell per numeric
  column, in the order of \<open>columns\<close>.
\<close>

type_synonym date = "int \<times> nat \<times> nat"

definition year_of :: "date \<Rightarrow> int" where
  "year_of d = fst d"

record frame =
  columns :: "string list"
  rows :: "(date \<times> fval list) list"

definition wf_frame :: "frame \<Rightarrow> bool" where
  "wf_frame df = (\<forall>r \<in> set (rows df). length (snd r) = length (columns df))"

text \<open>
  \<^verbatim>\<open>df["Year"] = df["Date"].dt.year\<close> overwrites a numeric column that already has the
  name \<^verbatim>\<open>Year\<close>; the column is then the grouping key and is dropped from the result.
  On the numeric columns this is the removal of a column with that name.
\<close>

definition drop_column :: "string \<Rightarrow> frame \<Rightarrow> frame" where
  "drop_column c df =
     (if c \<in> set (columns df)
      then \<lparr>columns = filter (\<lambda>n. n \<noteq> c) (columns df),
            rows = map (\<lambda>(d, vs). (d, map snd (filter (\<lambda>(n, v). n \<noteq> c) (zip (columns df) vs))))
                     (rows df)\<rparr>
      else df)"

text \<open>
  \<^verbatim>\<open>groupby("Year").sum(numeric_only=True)\<close>: the group keys in ascending order, and
  for each key the column-wise sums of the rows of the group.  \<open>column_sums n\<close> adds
  the rows of a group into \<open>n\<close> accumulators, one per numeric column.
\<close>

definition column_sums :: "nat \<Rightarrow> fval list list \<Rightarrow> fval list" where
  "column_sums n vss = foldl (\<lambda>acc vs. map2 skipna_add acc vs) (replicate n (Fin 0)) vss"

definition group_keys :: "frame \<Rightarrow> int list" where
  "group_keys df = sort (remdups (map (\<lambda>r. year_of (fst r)) (rows df)))"

definition aggregate_annual :: "frame \<Rightarrow> frame" where
  "aggregate_annual df =
     (let d = drop_column ''Year'' df
      in \<lparr>columns = columns d,
          rows = map (\<lambda>y. ((y, 1, 1),
                           column_sums (length (columns d))
                             (map snd (filter (\<lambda>r. year_of (fst r) = y) (rows d)))))
                   (group_keys d)\<rparr>)"

definition percent_mix_row :: "date \<times> fval list \<Rightarrow> date \<times> fval list" where
  "percent_mix_row r =
     (let totals = sum_skipna (snd r)
      in (fst r, map (\<lambda>v. fmul (fdiv v totals) (Fin 100)) (snd r)))"

definition percent_mix :: "frame \<Rightarrow> frame" where
  "percent_mix df = df\<lparr>rows := map percent_mix_row (rows df)\<rparr>"

text \<open>
  The data path of the callback \<^verbatim>\<open>update_plot\<close>, for a non-empty selection of
  sources: the year filter, then the four conditional transformation steps in the order
  the callback runs them.  The Plotly figure built from the resulting frame is not
  modelled.
\<close>

definition filter_years :: "int \<Rightarrow> int \<Rightarrow> frame \<Rightarrow> frame" where
  "filter_years start_year end_year df =
     df\<lparr>rows := filter (\<lambda>r. start_year \<le> year_of (fst r) \<and> year_of (fst r) \<le> end_year)
                     (rows df)\<rparr>"

definition update_plot_frame :: "string \<Rightarrow> string \<Rightarrow> int \<times> int \<Rightarrow> frame \<Rightarrow> frame" where
  "update_plot_frame time_res view_type year_range df_full =
     (let df0 = filter_years (fst year_range) (snd year_range) df_full;
          df1 = (if time_res = ''annual'' then aggregate_annual df0 else df0);
          df2 = (if view_type = ''percent'' then percent_mix df1 else df1);
          df3 = (if time_res = ''annual'' then aggregate_annual df2 else df2);
          df4 = (if view_type = ''percent'' then percent_mix df3 else df3)
      in df4)"

text \<open>
  The callback \<^verbatim>\<open>update_pie\<close> up to the dictionary \<^verbatim>\<open>pie_data\<close>: the rows of the
  selected year, the column totals as a series indexed by column name, and the six
  categories in the insertion order of the dictionary.  \<^verbatim>\<open>totals.get(name, 0)\<close> is
  \<open>series_get\<close> with the default \<open>Fin 0\<close>.
\<close>

definition update_pie_totals :: "frame \<Rightarrow> int \<Rightarrow> (string \<times> fval) list" where
  "update_pie_totals df_full selected_year =
     (let df = drop_column ''Year'' df_full;
          df_year = filter (\<lambda>r. year_of (fst r) = selected_year) (rows df)
      in zip (columns df) (column_sums (length (columns df)) (map snd df_year)))"

definition series_get :: "(string \<times> fval) list \<Rightarrow> string \<Rightarrow> fval \<Rightarrow> fval" where
  "series_get s k dflt = (case map_of s k of Some v \<Rightarrow> v | None \<Rightarrow> dflt)"

definition update_pie_data :: "frame \<Rightarrow> int \<Rightarrow> (string \<times> fval) list" where
  "update_pie_data df_full selected_year =
     (let totals = update_pie_totals df_full selected_year
      in [(''Gas'', fadd (series_get totals ''GasDry'' (Fin 0))
                         (series_get totals ''GasLiquid'' (Fin 0))),
          (''Coal'', series_get totals ''Coal'' (Fin 0)),
          (''Nuclear'', series_get totals ''Nuclear'' (Fin 0)),
          (''Wind'', series_get totals ''Wind'' (Fin 0)),
          (''Solar'', series_get totals ''Solar'' (Fin 0)),
          (''All Others'', fadd (fadd (series_get totals ''Hydro'' (Fin 0))
                                      (series_get totals ''Geothermal'' (Fin 0)))
                                (series_get totals ''Biomass'' (Fin 0)))])"

section \<open>The loader (createDB.py)\<close>

text \<open>
  A cell of the spreadsheet as \<^verbatim>\<open>pd.read_excel\<close> returns it is a number (an empty cell
  is the number NaN) or a text.  A data frame of the loader is the list of its columns in
  order, each with its label and its cells.
\<close>

datatype cell = Num fval | Text string

type_synonym data_frame = "(string \<times> cell list) list"

datatype py_error =
    IndexError
  | KeyError "string list"
  | TypeError string
  | OperationalError string
  | IntegrityError string

datatype 'a outcome = Returned 'a | SystemExit nat | Raised py_error

text \<open>
  A table of the SQLite file has its column names, its primary key column if it has one,
  and its rows, each a list of cells in the order of the columns.  A database maps a
  table name to its table.
\<close>

record table =
  tcolumns :: "string list"
  tprimary :: "string option"
  trows :: "cell list list"

type_synonym database = "string \<rightharpoonup> table"

datatype db_event = Connect string | Execute string | Insert string nat | Commit | Close

text \<open>
  The world the loader runs in: the spreadsheets by path, as \<^verbatim>\<open>pd.read_excel\<close> with
  \<^verbatim>\<open>header=10, skiprows=[11]\<close> parses them (no entry when the file does not exist); the
  SQLite files by name; the log of the calls made on database connections; and the lines
  printed on the terminal.  Every statement of the program takes effect in the file at
  once: \<^verbatim>\<open>sqlite3\<close> runs \<^verbatim>\<open>DROP\<close> and \<^verbatim>\<open>CREATE\<close> outside a transaction, and
  \<^verbatim>\<open>to_sql\<close> commits its inserts, or rolls all of them back when one fails.
\<close>

record world =
  files :: "string \<rightharpoonup> data_frame"
  databases :: "string \<rightharpoonup> database"
  db_log :: "db_event list"
  stdout :: "string list"

definition quote :: "string \<Rightarrow> string" where
  "quote s = [CHR 0x27] @ s @ [CHR 0x27]"

definition read_excel_file :: "string \<Rightarrow> world \<Rightarrow> data_frame outcome \<times> world" where
  "read_excel_file file_name w =
     (case files w file_name of
        None \<Rightarrow>
          (SystemExit 1,
           w\<lparr>stdout := stdout w @ [''Error: The file '' @ quote file_name @ '' was not found.'']\<rparr>)
      | Some df \<Rightarrow>
          (case df of
             [] \<Rightarrow> (Raised IndexError, w)
           | (c0, xs0) # rest \<Rightarrow>
               (Returned (map (\<lambda>(c, xs). (if c = c0 then ''Date'' else c, xs)) df), w)))"

definition columns_mapping :: "(string \<times> string) list" where
  "columns_mapping =
     [(''Coal Production'', ''Coal''),
      (''Natural Gas (Dry) Production'', ''GasDry''),
      (''Natural Gas Plant Liquids Production'', ''GasLiquid''),
      (''Crude Oil Production'', ''CrudeOil''),
      (''Nuclear Electric Power Production'', ''Nuclear''),
      (''Hydroelectric Power Production'', ''Hydro''),
      (''Geothermal Energy Production'', ''Geothermal''),
      (''Solar Energy Production'', ''Solar''),
      (''Wind Energy Production'', ''Wind''),
      (''Biomass Energy Production'', ''Biomass'')]"

text \<open>
  \<^verbatim>\<open>data_frame[labels]\<close>: for each label in turn, every column of the frame that has
  the label; a \<^verbatim>\<open>KeyError\<close> naming the labels the frame does not have.
\<close>

definition select_columns :: "string list \<Rightarrow> data_frame \<Rightarrow> py_error + data_frame" where
  "select_columns labels df =
     (let missing = filter (\<lambda>n. n \<notin> set (map fst df)) labels
      in if missing \<noteq> [] then Inl (KeyError missing)
         else Inr (concat (map (\<lambda>n. filter (\<lambda>c. fst c = n) df) labels)))"

definition rename_columns :: "(string \<times> string) list \<Rightarrow> data_frame \<Rightarrow> data_frame" where
  "rename_columns m df =
     map (\<lambda>(c, xs). (case map_of m c of Some c' \<Rightarrow> c' | None \<Rightarrow> c, xs)) df"

text \<open>
  \<^verbatim>\<open>pd.to_numeric(col, errors="coerce")\<close> keeps a number and reads a text with the
  library's parser, which is a parameter of the model: \<open>parse s\<close> is the number the
  parser reads from \<open>s\<close>, and \<open>None\<close> when it reads none (the cell is then NaN).
  \<^verbatim>\<open>fillna(0.0)\<close> replaces NaN.
\<close>

definition to_numeric :: "(string \<Rightarrow> fval option) \<Rightarrow> cell \<Rightarrow> fval" where
  "to_numeric parse c =
     (case c of
        Num v \<Rightarrow> v
      | Text s \<Rightarrow> (case parse s of Some v \<Rightarrow> v | None \<Rightarrow> NaN))"

definition fillna :: "fval \<Rightarrow> fval \<Rightarrow> fval" where
  "fillna value v = (if v = NaN then value else v)"

text \<open>
  The loop over the columns of \<^verbatim>\<open>df_subset\<close> coerces every column whose label is not
  \<^verbatim>\<open>Date\<close>.  When such a label heads more than one column, \<^verbatim>\<open>df_subset[col]\<close> is a
  frame and \<^verbatim>\<open>pd.to_numeric\<close> raises a \<^verbatim>\<open>TypeError\<close>.
\<close>

definition remap_dataFrame ::
    "(string \<Rightarrow> fval option) \<Rightarrow> data_frame \<Rightarrow> py_error + data_frame" where
  "remap_dataFrame parse data_frame =
     (case select_columns (''Date'' # map fst columns_mapping) data_frame of
        Inl e \<Rightarrow> Inl e
      | Inr selected \<Rightarrow>
          (let df_subset = rename_columns columns_mapping selected;
               repeated = filter (\<lambda>col. col \<noteq> ''Date'' \<and>
                                    1 < length (filter (\<lambda>c. fst c = col) df_subset))
                            (map fst df_subset)
           in if repeated \<noteq> []
              then Inl (TypeError ''arg must be a list, tuple, 1-d array, or Series'')
              else Inr (map (\<lambda>(col, xs).
                          if col \<noteq> ''Date''
                          then (col, map (\<lambda>x. Num (fillna (Fin 0) (to_numeric parse x))) xs)
                          else (col, xs))
                        df_subset)))"

definition connect :: "string \<Rightarrow> world \<Rightarrow> world" where
  "connect db_name w =
     w\<lparr>databases := (case databases w db_name of
                        None \<Rightarrow> (databases w)(db_name \<mapsto> Map.empty)
                      | Some db \<Rightarrow> databases w),
       db_log := db_log w @ [Connect db_name]\<rparr>"

definition drop_table :: "database \<Rightarrow> database" where
  "drop_table db = db(''Mix'' := None)"

definition create_newTable :: "database \<Rightarrow> py_error + database" where
  "create_newTable db =
     (case db ''EnergyMix'' of
        Some t \<Rightarrow> Inl (OperationalError ''table EnergyMix already exists'')
      | None \<Rightarrow>
          Inr (db(''EnergyMix'' \<mapsto>
                 \<lparr>tcolumns = [''Date'', ''Coal'', ''GasDry'', ''GasLiquid'', ''CrudeOil'',
                              ''Nuclear'', ''Hydro'', ''Geothermal'', ''Solar'', ''Wind'',
                              ''Biomass''],
                  tprimary = Some ''Date'',
                  trows = []\<rparr>)))"

text \<open>
  \<^verbatim>\<open>to_sql(name, conn, if_exists="append", index=False)\<close>: a table that does not exist
  is created with the columns of the frame and no key; the rows of the frame are inserted
  by column name, a column of the table that the frame lacks being NULL (NaN).  The insert
  fails, and no row is kept, when the frame has a column the table lacks or when two rows
  of the table would have the same non-NULL primary key.  Keys are compared as the cells
  that are inserted: the conversion of a number to text, which SQLite applies to a
  column declared \<^verbatim>\<open>TEXT\<close>, is not modelled.
\<close>

definition frame_rows :: "data_frame \<Rightarrow> (string \<times> cell) list list" where
  "frame_rows df = map (zip (map fst df)) (transpose (map snd df))"

definition key_values :: "table \<Rightarrow> cell list" where
  "key_values t =
     (case tprimary t of
        None \<Rightarrow> []
      | Some k \<Rightarrow>
          filter (\<lambda>c. c \<noteq> Num NaN)
            (concat (map (\<lambda>r. case map_of (zip (tcolumns t) r) k of Some c \<Rightarrow> [c] | None \<Rightarrow> [])
                         (trows t))))"

definition to_sql :: "string \<Rightarrow> data_frame \<Rightarrow> database \<Rightarrow> py_error + database" where
  "to_sql name df db =
     (let t = (case db name of
                 Some t \<Rightarrow> t
               | None \<Rightarrow> \<lparr>tcolumns = map fst df, tprimary = None, trows = []\<rparr>);
          new_rows = map (\<lambda>r. map (\<lambda>c. case map_of r c of Some v \<Rightarrow> v | None \<Rightarrow> Num NaN)
                                   (tcolumns t))
                         (frame_rows df);
          t' = t\<lparr>trows := trows t @ new_rows\<rparr>
      in if \<not> set (map fst df) \<subseteq> set (tcolumns t)
         then Inl (OperationalError (''table '' @ name @ '' has no such column''))
         else if \<not> distinct (key_values t')
         then Inl (IntegrityError
                     (''UNIQUE constraint failed: '' @ name @ ''.'' @
                      (case tprimary t of Some k \<Rightarrow> k | None \<Rightarrow> [])))
         else Inr (db(name \<mapsto> t')))"

definition with_db :: "string \<Rightarrow> database \<Rightarrow> world \<Rightarrow> world" where
  "with_db db_name db w = w\<lparr>databases := (databases w)(db_name \<mapsto> db)\<rparr>"

definition logged :: "db_event list \<Rightarrow> world \<Rightarrow> world" where
  "logged es w = w\<lparr>db_log := db_log w @ es\<rparr>"

definition current_db :: "string \<Rightarrow> world \<Rightarrow> database" where
  "current_db db_name w = (case databases w db_name of Some db \<Rightarrow> db | None \<Rightarrow> Map.empty)"

text \<open>
  \<^verbatim>\<open>UpdateSQLite(file_name, db_name)\<close>: the constructor of the parent class reads and
  remaps the spreadsheet; then the connection is opened, the three steps run, and the
  connection is committed and closed.  An exception that no handler catches ends the run
  where it is raised.
\<close>

definition insert_data :: "data_frame \<Rightarrow> string \<Rightarrow> world \<Rightarrow> unit outcome \<times> world" where
  "insert_data df_subset db_name w =
     (case to_sql ''EnergyMix'' df_subset (current_db db_name w) of
        Inl e \<Rightarrow> (Raised e, logged [Insert ''EnergyMix'' 0] w)
      | Inr db \<Rightarrow>
          (Returned (),
           (logged [Insert ''EnergyMix'' (length (frame_rows df_subset))] (with_db db_name db w))
             \<lparr>stdout := stdout w @ [''SQLite table '' @ quote ''EnergyMix'' @ '' updated successfully.'']\<rparr>))"

definition UpdateSQLite ::
    "(string \<Rightarrow> fval option) \<Rightarrow> string \<Rightarrow> string \<Rightarrow> world \<Rightarrow> unit outcome \<times> world" where
  "UpdateSQLite parse file_name db_name w =
     (case read_excel_file file_name w of
        (SystemExit n, w1) \<Rightarrow> (SystemExit n, w1)
      | (Raised e, w1) \<Rightarrow> (Raised e, w1)
      | (Returned df, w1) \<Rightarrow>
          (case remap_dataFrame parse df of
             Inl e \<Rightarrow> (Raised e, w1)
           | Inr df_subset \<Rightarrow>
               (let w2 = connect db_name w1;
                    w3 = logged [Execute ''DROP TABLE IF EXISTS Mix'']
                           (with_db db_name (drop_table (current_db db_name w2)) w2)
                in case create_newTable (current_db db_name w3) of
                     Inl e \<Rightarrow> (Raised e, logged [Execute ''CREATE TABLE EnergyMix''] w3)
                   | Inr db \<Rightarrow>
                       (let w4 = logged [Execute ''CREATE TABLE EnergyMix''] (with_db db_name db w3)
                        in case insert_data df_subset db_name w4 of
                             (Returned u, w5) \<Rightarrow> (Returned (), logged [Commit, Close] w5)
                           | (SystemExit n, w5) \<Rightarrow> (SystemExit n, w5)
                           | (Raised e, w5) \<Rightarrow> (Raised e, w5)))))"

definition main :: "(string \<Rightarrow> fval option) \<Rightarrow> world \<Rightarrow> unit outcome \<times> world" where
  "main parse w = UpdateSQLite parse ''Mix.xlsx'' ''Energy.db'' w"

section \<open>Example inputs\<close>

text \<open>
  A spreadsheet of two months as \<^verbatim>\<open>pd.read_excel\<close> returns it: the date column under
  its original label, the ten production columns, and one column the loader ignores.  It
  holds a placeholder text, a number written as text, an empty cell and a negative number.
\<close>

definition example_sheet :: data_frame where
  "example_sheet =
     [(''Month'', [Text ''1973-01'', Text ''1973-02'']),
      (''Coal Production'', [Text ''12.34'', Text ''Not Available'']),
      (''Natural Gas (Dry) Production'', [Num (Fin 2), Num (Fin (- 5))]),
      (''Natural Gas Plant Liquids Production'', [Num (Fin 3), Num (Fin 1)]),
      (''Crude Oil Production'', [Num (Fin 4), Num (Fin 1)]),
      (''Nuclear Electric Power Production'', [Num (Fin 5), Num (Fin 1)]),
      (''Hydroelectric Power Production'', [Num (Fin 6), Num (Fin 1)]),
      (''Geothermal Energy Production'', [Num (Fin 7), Num (Fin 1)]),
      (''Solar Energy Production'', [Num (Fin 8), Num NaN]),
      (''Wind Energy Production'', [Num (Fin 9), Num (Fin 1)]),
      (''Total Primary Energy Production'', [Num (Fin 56), Num (Fin 2)]),
      (''Biomass Energy Production'', [Num (Fin 10), Num (Fin 1)])]"

text \<open>
  A parser that reads the one number written as text in the example, as the float
  nearest to it.
\<close>

definition example_parse :: "string \<Rightarrow> fval option" where
  "example_parse s = (if s = ''12.34'' then Some (round64 12.34) else None)"

definition example_world :: world where
  "example_world =
     \<lparr>files = [''Mix.xlsx'' \<mapsto> example_sheet], databases = Map.empty, db_log = [], stdout = []\<rparr>"

text \<open>
  Two months of one year with different mixes: 25 to 75 in January, 75 to 25 in February.
\<close>

definition two_months :: frame where
  "two_months =
     \<lparr>columns = [''Coal'', ''Wind''],
      rows = [((2020, 1, 1), [Fin 1, Fin 3]), ((2020, 2, 1), [Fin 9, Fin 3])]\<rparr>"

text \<open>One month whose two cells cancel: the row total is zero and the cells are not.\<close>

definition cancelling_month :: frame where
  "cancelling_month =
     \<lparr>columns = [''Coal'', ''Wind''], rows = [((2020, 1, 1), [Fin 1, Fin (- 1)])]\<rparr>"


text \<open>
  The totals of one year in the columns the dashboard reads from the table, and a frame
  that has only one of these columns.
\<close>

definition pie_year :: frame where
  "pie_year =
     \<lparr>columns = [''Coal'', ''GasDry'', ''GasLiquid'', ''Nuclear'', ''Hydro'', ''Geothermal'',
                 ''Solar'', ''Wind'', ''Biomass''],
      rows = [((2020, 1, 1), [Fin 20, Fin 10, Fin 5, Fin 8, Fin 1, Fin 0, Fin 2, Fin 3, Fin 1])]\<rparr>"

definition coal_only :: frame where
  "coal_only = \<lparr>columns = [''Coal''], rows = [((2020, 1, 1), [Fin 20])]\<rparr>"

text \<open>Two months of one year that hold the two infinities in one column.\<close>

definition opposite_infinities :: frame where
  "opposite_infinities =
     \<lparr>columns = [''Coal''], rows = [((2020, 1, 1), [PInf]), ((2020, 2, 1), [NInf])]\<rparr>"

text \<open>
  A month with one part in three of coal, whose percentages are not floats, and an
  all-zero month.
\<close>

definition thirds :: frame where
  "thirds =
     \<lparr>columns = [''Coal'', ''Wind''],
      rows = [((2020, 1, 1), [Fin 1, Fin 2]), ((2020, 2, 1), [Fin 0, Fin 0])]\<rparr>"

section \<open>Properties of the rounding\<close>

lemma expo_up_spec:
  assumes "2 powi e \<le> y"
  shows "e \<le> expo_up n y e \<and> expo_up n y e \<le> e + int n \<and> 2 powi (expo_up n y e) \<le> y \<and>
         (expo_up n y e < e + int n \<longrightarrow> y < 2 powi (expo_up n y e + 1))"
  using assms
proof (induction n arbitrary: e)
  case 0
  then show ?case by simp
next
  case (Suc n)
  show ?case
  proof (cases "y < 2 powi (e + 1)")
    case True
    with Suc.prems show ?thesis by simp
  next
    case False
    then have "2 powi (e + 1) \<le> y" by simp
    from Suc.IH [OF this] False show ?thesis by auto
  qed
qed

lemma expo_down_spec:
  assumes "y < 2 powi (e + 1)"
  shows "expo_down n y e \<le> e \<and> e - int n \<le> expo_down n y e \<and> y < 2 powi (expo_down n y e + 1) \<and>
         (e - int n < expo_down n y e \<longrightarrow> 2 powi (expo_down n y e) \<le> y)"
  using assms
proof (induction n arbitrary: e)
  case 0
  then show ?case by simp
next
  case (Suc n)
  show ?case
  proof (cases "2 powi e \<le> y")
    case True
    with Suc.prems show ?thesis by simp
  next
    case False
    then have "y < 2 powi (e - 1 + 1)" by simp
    from Suc.IH [OF this] False show ?thesis by auto
  qed
qed

lemma expo64_spec:
  "- 1022 \<le> expo64 y \<and> expo64 y \<le> 1024 \<and>
   (- 1022 < expo64 y \<longrightarrow> 2 powi (expo64 y) \<le> y) \<and>
   (expo64 y < 1024 \<longrightarrow> y < 2 powi (expo64 y + 1))"
proof (cases "1 \<le> y")
  case True
  then have "(2::real) powi 0 \<le> y" by simp
  from expo_up_spec [OF this, of 1024] True show ?thesis
    by (simp add: expo64_def)
next
  case False
  then have "y < 2 powi (- 1 + 1)" by simp
  from expo_down_spec [OF this, of 1021] False show ?thesis
    by (simp add: expo64_def)
qed

lemma round_even_error: "\<bar>of_int (round_even y) - y\<bar> \<le> 1 / 2"
  unfolding round_even_def Let_def by (auto simp: abs_if) linarith+

lemma round_even_of_int [simp]: "round_even (of_int k) = k"
  by (simp add: round_even_def)

lemma round_even_le: "y \<le> of_int N \<Longrightarrow> round_even y \<le> N"
  unfolding round_even_def Let_def
  by (auto simp: floor_le_iff) (linarith+)?

lemma round_even_ge: "of_int N \<le> y \<Longrightarrow> N \<le> round_even y"
  unfolding round_even_def Let_def
  by (auto simp: le_floor_iff) (linarith+)?


lemma two_powi_pos [simp]: "0 < (2::real) powi n"
  by simp

lemma two_powi_add: "(2::real) powi (a + b) = 2 powi a * 2 powi b"
  by (simp add: power_int_add)

lemma two_powi_mono: "a \<le> b \<Longrightarrow> (2::real) powi a \<le> 2 powi b"
  by (rule power_int_increasing) simp_all

lemma two_powi_less_exp: "(2::real) powi a < 2 powi b \<Longrightarrow> a < b"
  using two_powi_mono [of b a] by (cases "a < b") simp_all

lemma round64_if_integral:
  assumes "x / 2 powi (expo64 \<bar>x\<bar> - 52) = of_int z" and "\<bar>x\<bar> < 2 ^ 1024"
  shows "round64 x = Fin x"
proof -
  let ?q = "(2::real) powi (expo64 \<bar>x\<bar> - 52)"
  have q: "?q \<noteq> 0" by simp
  have "of_int (round_even (x / ?q)) * ?q = x"
    unfolding assms(1) round_even_of_int using assms(1) q by (simp add: field_simps)
  then show ?thesis using assms(2) by (simp add: round64_def Let_def)
qed

lemma round64_exact:
  assumes k: "\<bar>k\<bar> \<le> 2 ^ 53" and j: "- 1074 \<le> j"
    and b: "\<bar>of_int k * 2 powi j\<bar> < (2::real) ^ 1024"
  shows "round64 (of_int k * 2 powi j) = Fin (of_int k * 2 powi j)"
proof -
  define r where "r = of_int k * (2::real) powi j"
  define E where "E = expo64 \<bar>r\<bar>"
  note s = expo64_spec [of "\<bar>r\<bar>", folded E_def]
  have a: "\<bar>r\<bar> = of_int \<bar>k\<bar> * 2 powi j" by (simp add: r_def abs_mult)
  have kr: "real_of_int \<bar>k\<bar> \<le> 2 ^ 53"
    using k by (metis of_int_le_iff of_int_numeral of_int_power)
  have "\<exists>z. r / 2 powi (E - 52) = of_int z"
  proof (cases "E - 52 \<le> j")
    case True
    then obtain n where n: "j = (E - 52) + int n"
      by (metis zle_iff_zadd)
    have "r / 2 powi (E - 52) = of_int k * 2 ^ n"
      unfolding r_def by (subst n) (simp add: two_powi_add)
    also have "\<dots> = of_int (k * 2 ^ n)" by simp
    finally show ?thesis by blast
  next
    case False
    then have lt: "j + 52 < E" by simp
    with j have "- 1022 < E" by simp
    with s have lo: "2 powi E \<le> \<bar>r\<bar>" by blast
    also have "\<bar>r\<bar> \<le> 2 ^ 53 * 2 powi j"
      unfolding a using kr by (intro mult_right_mono) simp_all
    also have "\<dots> = 2 powi (j + 53)" by (simp add: two_powi_add)
    finally have le: "(2::real) powi E \<le> 2 powi (j + 53)" .
    have "E \<le> j + 53"
    proof (rule ccontr)
      assume "\<not> E \<le> j + 53"
      then have "j + 53 < E" by simp
      then have "(2::real) powi (j + 53) < 2 powi E"
        by (intro power_int_strict_increasing) simp_all
      with le show False by simp
    qed
    with lt have E: "E = j + 53" by simp
    have "(2::real) powi j * 2 ^ 53 = 2 powi E" unfolding E by (simp add: two_powi_add)
    also note lo
    also note a
    finally have "(2::real) powi j * 2 ^ 53 \<le> 2 powi j * of_int \<bar>k\<bar>" by (simp add: mult.commute)
    then have "(2::real) ^ 53 \<le> of_int \<bar>k\<bar>"
      by (subst (asm) mult_le_cancel_left_pos) simp_all
    with kr have "real_of_int \<bar>k\<bar> = 2 ^ 53" by simp
    then have "\<bar>k\<bar> = 2 ^ 53"
      by (metis of_int_eq_iff of_int_numeral of_int_power)
    then have kk: "k = 2 ^ 53 \<or> k = - (2 ^ 53)" by (auto simp: abs_if split: if_splits)
    have "r / 2 powi (E - 52) = of_int k / 2"
      unfolding E r_def by (simp add: two_powi_add field_simps)
    also from kk have "\<dots> = of_int (k div 2)" by auto
    finally show ?thesis by blast
  qed
  then obtain z where "r / 2 powi (expo64 \<bar>r\<bar> - 52) = of_int z" unfolding E_def ..
  then have "round64 r = Fin r" using b [folded r_def] by (rule round64_if_integral)
  then show ?thesis by (simp add: r_def)
qed


lemma round64_not_NaN [simp]: "round64 x \<noteq> NaN"
  by (simp add: round64_def Let_def)

lemma round64_Fin_shape:
  assumes "round64 x = Fin r"
  shows "\<exists>m E. r = of_int m * 2 powi (E - 52) \<and> \<bar>m\<bar> \<le> 2 ^ 53 \<and> - 1022 \<le> E \<and> E \<le> 1023 \<and>
           E = expo64 \<bar>x\<bar> \<and> m = round_even (x / 2 powi (E - 52)) \<and> \<bar>r\<bar> < 2 ^ 1024"
proof -
  define E where "E = expo64 \<bar>x\<bar>"
  define q where "q = (2::real) powi (E - 52)"
  define m where "m = round_even (x / q)"
  note s = expo64_spec [of "\<bar>x\<bar>", folded E_def]
  have qpos: "0 < q" by (simp add: q_def)
  from assms have r: "r = of_int m * q" and b: "\<bar>r\<bar> < 2 ^ 1024"
    by (auto simp: round64_def Let_def E_def q_def m_def split: if_splits)
  have E1023: "E \<le> 1023"
  proof (rule ccontr)
    assume "\<not> E \<le> 1023"
    with s have E: "E = 1024" by simp
    with s have "2 powi 1024 \<le> \<bar>x\<bar>" by simp
    then have "(2::real) ^ 52 * q \<le> \<bar>x\<bar>" by (simp add: q_def E)
    then have "(2::real) ^ 52 \<le> \<bar>x\<bar> / q" using qpos by (simp add: field_simps)
    then have "of_int (2 ^ 52) \<le> \<bar>x / q\<bar>" using qpos by simp
    then have "2 ^ 52 \<le> \<bar>m\<bar>"
      unfolding m_def using round_even_ge [of "2 ^ 52" "x / q"] round_even_le [of "x / q" "- (2 ^ 52)"]
      by (auto simp: abs_if split: if_splits)
    then have "(2::real) ^ 52 \<le> \<bar>of_int m\<bar>"
      by (metis of_int_abs of_int_le_iff of_int_numeral of_int_power)
    then have "(2::real) ^ 52 * q \<le> \<bar>of_int m\<bar> * q" using qpos by simp
    then have "(2::real) ^ 1024 \<le> \<bar>r\<bar>" using qpos by (simp add: r abs_mult q_def E)
    with b show False by simp
  qed
  with s have "\<bar>x\<bar> < 2 powi (E + 1)" by simp
  also have "\<dots> = 2 ^ 53 * q" by (simp add: q_def two_powi_add power_int_diff)
  finally have "\<bar>x\<bar> / q < 2 ^ 53" using qpos by (simp add: field_simps)
  then have "\<bar>x / q\<bar> \<le> of_int (2 ^ 53)" using qpos by simp
  then have "\<bar>m\<bar> \<le> 2 ^ 53"
    unfolding m_def using round_even_le [of "x / q" "2 ^ 53"] round_even_ge [of "- (2 ^ 53)" "x / q"]
    by (auto simp: abs_if split: if_splits)
  with r b E1023 s show ?thesis
    unfolding q_def m_def E_def by blast
qed

lemma round64_idem:
  assumes "round64 x = Fin r"
  shows "round64 r = Fin r"
proof -
  from round64_Fin_shape [OF assms] obtain m E where
    r: "r = of_int m * 2 powi (E - 52)" and m: "\<bar>m\<bar> \<le> 2 ^ 53" and E: "- 1022 \<le> E"
    and b: "\<bar>r\<bar> < 2 ^ 1024" by blast
  from E have "- 1074 \<le> E - 52" by simp
  from round64_exact [OF m this] b show ?thesis unfolding r by simp
qed

lemma round64_error:
  assumes "round64 x = Fin r"
  shows "\<bar>r - x\<bar> \<le> \<bar>x\<bar> / 2 ^ 53 + 1 / 2 ^ 1075"
    and "2 powi (- 1022) \<le> \<bar>x\<bar> \<Longrightarrow> \<bar>r - x\<bar> \<le> \<bar>x\<bar> / 2 ^ 53"
proof -
  from round64_Fin_shape [OF assms] obtain m E where
    r: "r = of_int m * 2 powi (E - 52)" and E: "- 1022 \<le> E" "E = expo64 \<bar>x\<bar>"
    and m: "m = round_even (x / 2 powi (E - 52))" by blast
  define q where "q = (2::real) powi (E - 52)"
  have qpos: "0 < q" by (simp add: q_def)
  note s = expo64_spec [of "\<bar>x\<bar>", folded E(2)]
  have "r - x = q * (of_int m - x / q)" using qpos by (simp add: r q_def field_simps)
  then have "\<bar>r - x\<bar> = q * \<bar>of_int m - x / q\<bar>" using qpos by (simp add: abs_mult)
  also have "\<dots> \<le> q * (1 / 2)"
    using qpos round_even_error [of "x / q"] unfolding m q_def [symmetric]
    by (intro mult_left_mono) simp_all
  finally have e: "\<bar>r - x\<bar> \<le> q / 2" by simp
  have c1: "q / 2 \<le> \<bar>x\<bar> / 2 ^ 53" if "2 powi E \<le> \<bar>x\<bar>"
  proof -
    have "q / 2 = 2 powi E / 2 ^ 53" by (simp add: q_def power_int_diff)
    with that show ?thesis by (simp add: divide_right_mono)
  qed
  have c2: "q / 2 = 1 / 2 ^ 1075" if "E = - 1022"
    unfolding q_def that by (simp add: power_int_minus_divide)
  show "\<bar>r - x\<bar> \<le> \<bar>x\<bar> / 2 ^ 53 + 1 / 2 ^ 1075"
  proof (cases "E = - 1022")
    case True
    from e c2 [OF True] have "\<bar>r - x\<bar> \<le> 1 / 2 ^ 1075" by simp
    moreover have "0 \<le> \<bar>x\<bar> / 2 ^ 53" by simp
    ultimately show ?thesis by linarith
  next
    case False
    with E have "- 1022 < E" by simp
    with s have "2 powi E \<le> \<bar>x\<bar>" by blast
    from e c1 [OF this] show ?thesis by simp
  qed
  show "\<bar>r - x\<bar> \<le> \<bar>x\<bar> / 2 ^ 53" if h: "2 powi (- 1022) \<le> \<bar>x\<bar>"
  proof -
    have "2 powi E \<le> \<bar>x\<bar>"
    proof (cases "E = - 1022")
      case True
      with h show ?thesis by simp
    next
      case False
      with E have "- 1022 < E" by simp
      with s show ?thesis by blast
    qed
    from e c1 [OF this] show ?thesis by simp
  qed
qed


lemma round64_nonneg:
  assumes "0 \<le> x" and "round64 x = Fin r"
  shows "0 \<le> r"
proof -
  from round64_Fin_shape [OF assms(2)] obtain m E where
    r: "r = of_int m * 2 powi (E - 52)" and m: "m = round_even (x / 2 powi (E - 52))" by blast
  have "of_int 0 \<le> x / 2 powi (E - 52)" using assms(1) by simp
  then have "0 \<le> m" unfolding m by (rule round_even_ge)
  then show ?thesis by (simp add: r)
qed

lemma round64_nonneg_cases:
  assumes "0 \<le> x"
  shows "round64 x = PInf \<or> (\<exists>r. round64 x = Fin r)"
proof (cases "x = 0")
  case True
  then show ?thesis by (simp add: round64_def Let_def round_even_def)
next
  case False
  with assms have "0 < x" by simp
  then show ?thesis by (simp add: round64_def Let_def)
qed

lemma round64_finite:
  assumes "\<bar>x\<bar> \<le> 2 ^ 1023"
  shows "\<exists>r. round64 x = Fin r"
proof -
  define E where "E = expo64 \<bar>x\<bar>"
  define q where "q = (2::real) powi (E - 52)"
  define r where "r = of_int (round_even (x / q)) * q"
  note s = expo64_spec [of "\<bar>x\<bar>", folded E_def]
  have qpos: "0 < q" by (simp add: q_def)
  have E: "E \<le> 1023"
  proof (rule ccontr)
    assume "\<not> E \<le> 1023"
    with s have "E = 1024" by simp
    with s have "2 powi 1024 \<le> \<bar>x\<bar>" by simp
    with assms show False by simp
  qed
  have "r - x = q * (of_int (round_even (x / q)) - x / q)"
    using qpos by (simp add: r_def field_simps)
  then have "\<bar>r - x\<bar> = q * \<bar>of_int (round_even (x / q)) - x / q\<bar>"
    using qpos by (simp add: abs_mult)
  also have "\<dots> \<le> q * (1 / 2)"
    using qpos round_even_error [of "x / q"] by (intro mult_left_mono) simp_all
  finally have e: "\<bar>r - x\<bar> \<le> q / 2" by simp
  have "q \<le> 2 powi (1023 - 52)" unfolding q_def using E by (intro two_powi_mono) simp
  then have "q \<le> 2 ^ 971" by simp
  with e assms have "\<bar>r\<bar> \<le> 2 ^ 1023 + 2 ^ 971 / 2" by linarith
  also have "\<dots> < (2::real) ^ 1024" by simp
  finally have "\<bar>r\<bar> < 2 ^ 1024" .
  then have "round64 x = Fin r"
    by (simp add: round64_def Let_def r_def q_def E_def)
  then show ?thesis ..
qed

lemma round64_grid:
  assumes "round64 x = Fin r"
  shows "\<exists>k. r = of_int k * 2 powi (- 1074)"
proof -
  from round64_Fin_shape [OF assms] obtain m E where
    r: "r = of_int m * 2 powi (E - 52)" and E: "- 1022 \<le> E" by blast
  from E have "0 \<le> E + 1022" by simp
  then obtain n where "E + 1022 = int n" by (rule nonneg_int_cases)
  then have n: "E - 52 = - 1074 + int n" by simp
  have c: "of_int m * (c * 2 ^ n) = of_int (m * 2 ^ n) * c" for c :: real
    by simp
  have "(2::real) powi (- 1074 + int n) = 2 powi (- 1074) * 2 powi (int n)"
    by (rule two_powi_add)
  then have "r = of_int m * (2 powi (- 1074) * 2 ^ n)"
    unfolding r n by (simp only: power_int_of_nat)
  then have "r = of_int (m * 2 ^ n) * 2 powi (- 1074)"
    by (simp only: c)
  then show ?thesis ..
qed

lemma grid_exact:
  assumes "x = of_int k * 2 powi (- 1074)" and "\<bar>x\<bar> < 2 powi (- 1021)"
  shows "round64 x = Fin x"
proof -
  have "\<bar>of_int k\<bar> * (2::real) powi (- 1074) < 2 ^ 53 * 2 powi (- 1074)"
    using assms by (simp add: abs_mult two_powi_add [symmetric])
  then have "\<bar>real_of_int k\<bar> < 2 ^ 53" by (simp only: mult_less_cancel_right_pos two_powi_pos)
  then have "real_of_int \<bar>k\<bar> < real_of_int (2 ^ 53)" by simp
  then have "\<bar>k\<bar> < 2 ^ 53" by (simp only: of_int_less_iff)
  then have k: "\<bar>k\<bar> \<le> 2 ^ 53" by simp
  have "\<bar>x\<bar> < 2 ^ 1024"
  proof -
    have "(2::real) powi (- 1021) \<le> 2 powi 1024" by (rule two_powi_mono) simp
    with assms(2) show ?thesis by simp
  qed
  with round64_exact [OF k, of "- 1074"] show ?thesis unfolding assms(1) by simp
qed

subsection \<open>Values that need no rounding\<close>

lemma round64_int:
  assumes "\<bar>k\<bar> \<le> 2 ^ 53"
  shows "round64 (of_int k) = Fin (of_int k)"
proof -
  have "\<bar>real_of_int k\<bar> \<le> real_of_int (2 ^ 53)"
    using assms by (simp only: of_int_abs [symmetric] of_int_le_iff)
  also have "\<dots> < 2 ^ 1024" by simp
  finally have "\<bar>real_of_int k * 2 powi 0\<bar> < 2 ^ 1024" by simp
  from round64_exact [OF assms _ this] show ?thesis by simp
qed

lemma round64_dyadic:
  assumes "\<bar>k\<bar> \<le> 2 ^ 53" and "n \<le> 1074"
  shows "round64 (of_int k / 2 ^ n) = Fin (of_int k / 2 ^ n)"
proof -
  have e: "of_int k / 2 ^ n = of_int k * (2::real) powi (- int n)"
    by (simp add: power_int_minus_divide)
  have "\<bar>real_of_int k\<bar> \<le> real_of_int (2 ^ 53)"
    using assms(1) by (simp only: of_int_abs [symmetric] of_int_le_iff)
  moreover have "\<bar>real_of_int k / 2 ^ n\<bar> \<le> \<bar>real_of_int k\<bar>"
    by (simp add: abs_divide field_simps mult_le_cancel_left1)
  ultimately have "\<bar>real_of_int k / 2 ^ n\<bar> < 2 ^ 1024" by simp
  then have b: "\<bar>real_of_int k * 2 powi (- int n)\<bar> < 2 ^ 1024" by (simp only: e)
  have "- 1074 \<le> - int n" using assms(2) by simp
  from round64_exact [OF assms(1) this b] show ?thesis by (simp only: e)
qed

lemma round64_0 [simp]: "round64 0 = Fin 0"
  using round64_int [of 0] by simp

lemma round64_1 [simp]: "round64 1 = Fin 1"
  using round64_int [of 1] by simp

lemma round64_numeral:
  "numeral n \<le> (2::int) ^ 53 \<Longrightarrow> round64 (numeral n) = Fin (numeral n)"
  using round64_int [of "numeral n"] by simp

lemma round64_neg_numeral:
  "numeral n \<le> (2::int) ^ 53 \<Longrightarrow> round64 (- numeral n) = Fin (- numeral n)"
  using round64_int [of "- numeral n"] by simp

lemma round64_half:
  "numeral n \<le> (2::int) ^ 53 \<Longrightarrow> round64 (numeral n / 2) = Fin (numeral n / 2)"
  using round64_dyadic [of "numeral n" 1] by simp

lemma round64_quarter:
  "numeral n \<le> (2::int) ^ 53 \<Longrightarrow> round64 (numeral n / 4) = Fin (numeral n / 4)"
  using round64_dyadic [of "numeral n" 2] by simp

lemma round64_eighth:
  "numeral n \<le> (2::int) ^ 53 \<Longrightarrow> round64 (numeral n / 8) = Fin (numeral n / 8)"
  using round64_dyadic [of "numeral n" 3] by simp

lemma round64_one_over:
  "round64 (1 / 2) = Fin (1 / 2)" "round64 (1 / 4) = Fin (1 / 4)" "round64 (1 / 8) = Fin (1 / 8)"
  using round64_dyadic [of 1 1] round64_dyadic [of 1 2] round64_dyadic [of 1 3] by simp_all

lemmas round64_eval = round64_numeral round64_neg_numeral round64_half round64_quarter
  round64_eighth round64_one_over

subsection \<open>Overflow\<close>

lemma round64_overflow:
  assumes "2 ^ 1024 \<le> x"
  shows "round64 x = PInf"
proof (cases "round64 x")
  case (Fin r)
  from round64_Fin_shape [OF Fin] obtain E where E: "E \<le> 1023" "E = expo64 \<bar>x\<bar>" by blast
  with expo64_spec [of "\<bar>x\<bar>"] have "\<bar>x\<bar> < 2 powi (E + 1)" by simp
  also have "\<dots> \<le> 2 powi 1024" using E(1) by (intro two_powi_mono) simp
  finally show ?thesis using assms by simp
next
  case NInf
  have "0 < x" using assms by (rule less_le_trans [rotated]) simp
  with NInf show ?thesis by (simp add: round64_def Let_def split: if_splits)
qed simp_all

lemma round64_2_1023: "round64 (2 ^ 1023) = Fin (2 ^ 1023)"
  using round64_exact [of 1 1023] by simp

section \<open>Properties of the mix-fraction transform\<close>

subsection \<open>Rounding error of a sum and of a percentage\<close>



lemma u64_pos: "0 < u64" "u64 < 1" "0 \<le> u64" "0 \<le> 1 - u64" "0 \<le> 1 + u64"
  by (simp_all add: u64_def)

lemma float64_round64: "round64 x = Fin r \<Longrightarrow> float64 r"
  unfolding float64_def by (rule round64_idem)

lemma float64_add_error:
  assumes "float64 a" and "float64 b" and "round64 (a + b) = Fin r"
  shows "\<bar>r - (a + b)\<bar> \<le> u64 * \<bar>a + b\<bar>"
proof (cases "\<bar>a + b\<bar> < 2 powi (- 1021)")
  case True
  from assms(1) [unfolded float64_def, THEN round64_grid] obtain k where k: "a = of_int k * 2 powi (- 1074)" ..
  from assms(2) [unfolded float64_def, THEN round64_grid] obtain l where l: "b = of_int l * 2 powi (- 1074)" ..
  have "a + b = of_int (k + l) * 2 powi (- 1074)"
    unfolding k l by (simp only: of_int_add distrib_right)
  from grid_exact [OF this True] assms(3) have "r = a + b" by simp
  then show ?thesis using u64_pos by simp
next
  case False
  have "(2::real) powi (- 1022) \<le> 2 powi (- 1021)" by (rule two_powi_mono) simp
  with False have "2 powi (- 1022) \<le> \<bar>a + b\<bar>" by linarith
  from round64_error(2) [OF assms(3) this] show ?thesis by (simp add: u64_def)
qed

lemma foldl_skipna_PInf: "foldl skipna_add PInf (map Fin xs) = PInf"
  by (induction xs) (simp_all add: skipna_add_def)

lemma float_sum_bounds:
  assumes "\<forall>x \<in> set xs. 0 \<le> x \<and> float64 x" and "0 \<le> a" and "float64 a"
    and "foldl skipna_add (Fin a) (map Fin xs) = Fin T"
  shows "(1 - u64) ^ length xs * (a + sum_list xs) \<le> T \<and>
         T \<le> (1 + u64) ^ length xs * (a + sum_list xs) \<and> 0 \<le> T \<and> float64 T"
  using assms
proof (induction xs arbitrary: a)
  case Nil
  then show ?case by simp
next
  case (Cons x xs)
  have x: "0 \<le> x" "float64 x" using Cons.prems(1) by simp_all
  have s: "0 \<le> sum_list xs" using Cons.prems(1) by (intro sum_list_nonneg) simp
  have st: "skipna_add (Fin a) (Fin x) = round64 (a + x)" by (simp add: skipna_add_def)
  have nn: "0 \<le> a + x" using x Cons.prems(2) by simp
  from round64_nonneg_cases [OF nn] show ?case
  proof
    assume "round64 (a + x) = PInf"
    with Cons.prems(4) show ?thesis by (simp add: st foldl_skipna_PInf)
  next
    assume "\<exists>r. round64 (a + x) = Fin r"
    then obtain r where r: "round64 (a + x) = Fin r" ..
    have r0: "0 \<le> r" using nn r by (rule round64_nonneg)
    have rf: "float64 r" using r by (rule float64_round64)
    from float64_add_error [OF Cons.prems(3) x(2) r] nn
    have e: "(1 - u64) * (a + x) \<le> r" "r \<le> (1 + u64) * (a + x)"
      by (simp_all add: abs_le_iff algebra_simps)
    have f: "foldl skipna_add (Fin r) (map Fin xs) = Fin T"
      using Cons.prems(4) by (simp add: st r)
    have xs: "\<forall>x \<in> set xs. 0 \<le> x \<and> float64 x" using Cons.prems(1) by simp
    note ih = Cons.IH [OF xs r0 rf f]
    have lo: "(1 - u64) * (a + x + sum_list xs) \<le> r + sum_list xs"
    proof -
      have "(1 - u64) * sum_list xs \<le> sum_list xs"
        using s u64_pos by (simp add: mult_left_le_one_le)
      with e(1) show ?thesis by (simp add: algebra_simps)
    qed
    have hi: "r + sum_list xs \<le> (1 + u64) * (a + x + sum_list xs)"
    proof -
      have "sum_list xs \<le> (1 + u64) * sum_list xs"
        using s u64_pos by (simp add: algebra_simps)
      with e(2) show ?thesis by (simp add: algebra_simps)
    qed
    have "(1 - u64) ^ length (x # xs) * (a + sum_list (x # xs))
            = (1 - u64) ^ length xs * ((1 - u64) * (a + x + sum_list xs))"
      by (simp add: algebra_simps)
    also have "\<dots> \<le> (1 - u64) ^ length xs * (r + sum_list xs)"
      using lo u64_pos by (intro mult_left_mono) simp_all
    also have "\<dots> \<le> T" using ih by simp
    finally have L: "(1 - u64) ^ length (x # xs) * (a + sum_list (x # xs)) \<le> T" .
    have "T \<le> (1 + u64) ^ length xs * (r + sum_list xs)" using ih by simp
    also have "\<dots> \<le> (1 + u64) ^ length xs * ((1 + u64) * (a + x + sum_list xs))"
      using hi u64_pos by (intro mult_left_mono) simp_all
    also have "\<dots> = (1 + u64) ^ length (x # xs) * (a + sum_list (x # xs))"
      by (simp add: algebra_simps)
    finally have U: "T \<le> (1 + u64) ^ length (x # xs) * (a + sum_list (x # xs))" .
    from L U ih show ?thesis by simp
  qed
qed



lemma eta64_pos: "0 < eta64" "0 \<le> eta64"
  by (simp_all add: eta64_def)

lemma one_le_pow_u: "1 \<le> (1 + u64) ^ n"
  using u64_pos by (intro one_le_power) simp

lemma float_sum_finite:
  assumes "\<forall>x \<in> set xs. 0 \<le> x \<and> float64 x" and "0 \<le> a" and "float64 a"
    and "(1 + u64) ^ length xs * (a + sum_list xs) \<le> 2 ^ 1023"
  shows "\<exists>T. foldl skipna_add (Fin a) (map Fin xs) = Fin T"
  using assms
proof (induction xs arbitrary: a)
  case Nil
  then show ?case by simp
next
  case (Cons x xs)
  have x: "0 \<le> x" "float64 x" using Cons.prems(1) by simp_all
  have s: "0 \<le> sum_list xs" using Cons.prems(1) by (intro sum_list_nonneg) simp
  have st: "skipna_add (Fin a) (Fin x) = round64 (a + x)" by (simp add: skipna_add_def)
  have nn: "0 \<le> a + x" using x Cons.prems(2) by simp
  have tot: "0 \<le> a + x + sum_list xs" using nn s by simp
  have "a + x \<le> 1 * (a + x + sum_list xs)" using s by simp
  also have "\<dots> \<le> (1 + u64) ^ length (x # xs) * (a + x + sum_list xs)"
    using tot by (intro mult_right_mono one_le_pow_u)
  also have "\<dots> \<le> 2 ^ 1023" using Cons.prems(4) by (simp add: algebra_simps)
  finally have "\<bar>a + x\<bar> \<le> 2 ^ 1023" using nn by simp
  from round64_finite [OF this] obtain r where r: "round64 (a + x) = Fin r" ..
  have r0: "0 \<le> r" using nn r by (rule round64_nonneg)
  have rf: "float64 r" using r by (rule float64_round64)
  from float64_add_error [OF Cons.prems(3) x(2) r] nn
  have e: "r \<le> (1 + u64) * (a + x)"
    by (simp add: abs_le_iff algebra_simps)
  have hi: "r + sum_list xs \<le> (1 + u64) * (a + x + sum_list xs)"
  proof -
    have "sum_list xs \<le> (1 + u64) * sum_list xs"
      using s u64_pos by (simp add: algebra_simps)
    with e show ?thesis by (simp add: algebra_simps)
  qed
  have "(1 + u64) ^ length xs * (r + sum_list xs)
          \<le> (1 + u64) ^ length xs * ((1 + u64) * (a + x + sum_list xs))"
    using hi u64_pos by (intro mult_left_mono) simp_all
  also have "\<dots> = (1 + u64) ^ length (x # xs) * (a + sum_list (x # xs))"
    by (simp add: algebra_simps)
  also note Cons.prems(4)
  finally have b: "(1 + u64) ^ length xs * (r + sum_list xs) \<le> 2 ^ 1023" .
  have xs: "\<forall>x \<in> set xs. 0 \<le> x \<and> float64 x" using Cons.prems(1) by simp
  from Cons.IH [OF xs r0 rf b] show ?case by (simp add: st r)
qed

lemma round64_error_nonneg:
  assumes "0 \<le> y" and "round64 y = Fin r"
  shows "(1 - u64) * y - eta64 \<le> r" and "r \<le> (1 + u64) * y + eta64"
  using round64_error(1) [OF assms(2)] assms(1)
  by (simp_all add: abs_le_iff u64_def eta64_def algebra_simps)

lemma percent_cell:
  assumes "0 \<le> x" and "0 < T" and "x / T \<le> 2"
  shows "\<exists>p. fmul (fdiv (Fin x) (Fin T)) (Fin 100) = Fin p \<and> 0 \<le> p \<and> float64 p \<and>
           100 * (1 - u64) * (1 - u64) * (x / T) - 101 * eta64 \<le> p \<and>
           p \<le> 100 * (1 + u64) * (1 + u64) * (x / T) + 201 * eta64"
proof -
  define y where "y = x / T"
  have y0: "0 \<le> y" using assms by (simp add: y_def)
  have y2: "y \<le> 2" using assms(3) by (simp add: y_def)
  have "\<bar>y\<bar> \<le> 2 ^ 1023"
  proof -
    have "(2::real) \<le> 2 ^ 1023" by simp
    with y0 y2 show ?thesis by simp
  qed
  from round64_finite [OF this] obtain d where d: "round64 y = Fin d" ..
  have d0: "0 \<le> d" using y0 d by (rule round64_nonneg)
  note de = round64_error_nonneg [OF y0 d]
  have u1: "u64 \<le> 1" and e1: "eta64 \<le> 1" by (simp_all add: u64_def eta64_def)
  have "d \<le> (1 + u64) * y + eta64" by (rule de(2))
  also have "\<dots> \<le> 2 * 2 + 1"
    using y0 y2 u1 e1 u64_pos by (intro add_mono mult_mono) simp_all
  finally have d5: "d \<le> 5" by simp
  have z0: "0 \<le> d * 100" using d0 by simp
  have "\<bar>d * 100\<bar> \<le> 2 ^ 1023"
  proof -
    have "(500::real) \<le> 2 ^ 1023" by simp
    with d0 d5 show ?thesis by simp
  qed
  from round64_finite [OF this] obtain p where p: "round64 (d * 100) = Fin p" ..
  have p0: "0 \<le> p" using z0 p by (rule round64_nonneg)
  have pf: "float64 p" using p by (rule float64_round64)
  note pe = round64_error_nonneg [OF z0 p]
  have c: "fmul (fdiv (Fin x) (Fin T)) (Fin 100) = Fin p"
    using assms(2) d p by (simp add: y_def)
  have "100 * (1 - u64) * (1 - u64) * y - 101 * eta64
          \<le> (1 - u64) * (((1 - u64) * y - eta64) * 100) - eta64"
    using u64_pos eta64_pos by (simp add: algebra_simps)
  also have "\<dots> \<le> (1 - u64) * (d * 100) - eta64"
    using de(1) u64_pos by (intro diff_right_mono mult_left_mono mult_right_mono) simp_all
  also have "\<dots> \<le> p" by (rule pe(1))
  finally have lo: "100 * (1 - u64) * (1 - u64) * y - 101 * eta64 \<le> p" .
  have "p \<le> (1 + u64) * (d * 100) + eta64" by (rule pe(2))
  also have "\<dots> \<le> (1 + u64) * (((1 + u64) * y + eta64) * 100) + eta64"
    using de(2) u64_pos by (intro add_right_mono mult_left_mono mult_right_mono) simp_all
  also have "\<dots> \<le> 100 * (1 + u64) * (1 + u64) * y + 201 * eta64"
  proof -
    have "u64 * eta64 \<le> 1 * eta64" using u1 eta64_pos by (intro mult_right_mono) simp_all
    then show ?thesis by (simp add: algebra_simps)
  qed
  finally have hi: "p \<le> 100 * (1 + u64) * (1 + u64) * y + 201 * eta64" .
  from c p0 pf lo hi show ?thesis unfolding y_def by blast
qed


lemma percent_cells:
  assumes "\<forall>x \<in> set xs. 0 \<le> x \<and> x / T \<le> 2" and "0 < T"
  shows "\<exists>ps. map (\<lambda>v. fmul (fdiv v (Fin T)) (Fin 100)) (map Fin xs) = map Fin ps \<and>
           length ps = length xs \<and> (\<forall>p \<in> set ps. 0 \<le> p \<and> float64 p) \<and>
           100 * (1 - u64) * (1 - u64) * (sum_list xs / T) - real (length xs) * (101 * eta64)
             \<le> sum_list ps \<and>
           sum_list ps
             \<le> 100 * (1 + u64) * (1 + u64) * (sum_list xs / T) + real (length xs) * (201 * eta64)"
  using assms(1)
proof (induction xs)
  case Nil
  show ?case by simp
next
  case (Cons x xs)
  from Cons obtain ps where ps: "map (\<lambda>v. fmul (fdiv v (Fin T)) (Fin 100)) (map Fin xs) = map Fin ps"
    "length ps = length xs" "\<forall>p \<in> set ps. 0 \<le> p \<and> float64 p"
    "100 * (1 - u64) * (1 - u64) * (sum_list xs / T) - real (length xs) * (101 * eta64) \<le> sum_list ps"
    "sum_list ps \<le> 100 * (1 + u64) * (1 + u64) * (sum_list xs / T) + real (length xs) * (201 * eta64)"
    by auto
  have "0 \<le> x" "x / T \<le> 2" using Cons.prems by simp_all
  from percent_cell [OF this(1) assms(2) this(2)] obtain p where p:
    "fmul (fdiv (Fin x) (Fin T)) (Fin 100) = Fin p" "0 \<le> p" "float64 p"
    "100 * (1 - u64) * (1 - u64) * (x / T) - 101 * eta64 \<le> p"
    "p \<le> 100 * (1 + u64) * (1 + u64) * (x / T) + 201 * eta64"
    by blast
  have 1: "map (\<lambda>v. fmul (fdiv v (Fin T)) (Fin 100)) (map Fin (x # xs)) = map Fin (p # ps)"
    using ps(1) p(1) by simp
  have 2: "length (p # ps) = length (x # xs)" using ps(2) by simp
  have 3: "\<forall>q \<in> set (p # ps). 0 \<le> q \<and> float64 q" using ps(3) p(2,3) by simp
  have 4: "100 * (1 - u64) * (1 - u64) * (sum_list (x # xs) / T)
             - real (length (x # xs)) * (101 * eta64) \<le> sum_list (p # ps)"
    using ps(4) p(4) by (simp add: algebra_simps add_divide_distrib)
  have 5: "sum_list (p # ps) \<le> 100 * (1 + u64) * (1 + u64) * (sum_list (x # xs) / T)
             + real (length (x # xs)) * (201 * eta64)"
    using ps(5) p(5) by (simp add: algebra_simps add_divide_distrib)
  from 1 2 3 4 5 show ?case by blast
qed

lemma pow_u_upper:
  assumes "2 * real n * u64 \<le> 1"
  shows "(1 + u64) ^ n \<le> 1 + 2 * real n * u64"
  using assms
proof (induction n)
  case 0
  show ?case by simp
next
  case (Suc n)
  have a: "2 * real n * u64 \<le> 1" using Suc.prems u64_pos by (simp add: algebra_simps)
  have "(1 + u64) ^ Suc n = (1 + u64) * (1 + u64) ^ n" by simp
  also have "\<dots> \<le> (1 + u64) * (1 + 2 * real n * u64)"
    using Suc.IH [OF a] u64_pos by (intro mult_left_mono) simp_all
  also have "\<dots> = 1 + 2 * real n * u64 + u64 + u64 * (2 * real n * u64)"
    by (simp add: algebra_simps)
  also have "\<dots> \<le> 1 + 2 * real n * u64 + u64 + u64 * 1"
    using a u64_pos by (intro add_left_mono mult_left_mono) simp_all
  also have "\<dots> = 1 + 2 * real (Suc n) * u64" by (simp add: algebra_simps)
  finally show ?case .
qed

lemma pow_u_lower: "1 - real n * u64 \<le> (1 - u64) ^ n"
  using Bernoulli_inequality [of "- u64" n] u64_pos by simp


lemma pow_bounds_1000:
  assumes "n \<le> 1000"
  shows "(1 + u64) ^ n \<le> 1 + eps64" and "1 - eps64 \<le> (1 - u64) ^ n"
proof -
  have r: "real n \<le> 1000" using assms by simp
  have a: "2 * real n * u64 \<le> eps64"
  proof -
    have "2 * real n * u64 \<le> 2 * 1000 * u64" using r u64_pos by simp
    also have "\<dots> \<le> eps64" by (simp add: u64_def eps64_def)
    finally show ?thesis .
  qed
  have "eps64 \<le> 1" by (simp add: eps64_def)
  with a have "2 * real n * u64 \<le> 1" by simp
  from pow_u_upper [OF this] a show "(1 + u64) ^ n \<le> 1 + eps64" by simp
  have "0 \<le> real n * u64" using u64_pos by simp
  then have "real n * u64 \<le> 2 * real n * u64" by linarith
  with a have "1 - eps64 \<le> 1 - real n * u64" by linarith
  with pow_u_lower [of n] show "1 - eps64 \<le> (1 - u64) ^ n" by simp
qed


lemma percent_row_tolerance:
  assumes xs: "\<forall>x \<in> set xs. 0 \<le> x \<and> float64 x" and n: "length xs \<le> 1000"
    and T: "sum_skipna (map Fin xs) = Fin T" and T0: "T \<noteq> 0"
  shows "\<exists>ps s. map (\<lambda>v. fmul (fdiv v (Fin T)) (Fin 100)) (map Fin xs) = map Fin ps \<and>
           sum_skipna (map Fin ps) = Fin s \<and> \<bar>s - 100\<bar> \<le> 1 / 10 ^ 9"
proof -
  define A where "A = (1 + u64) ^ length xs"
  define B where "B = (1 - u64) ^ length xs"
  define S where "S = sum_list xs"
  have f0: "float64 0" by (simp add: float64_def)
  note pb = pow_bounds_1000 [OF n, folded A_def B_def]
  have e42: "eps64 = 1 / 2 ^ 42" by (rule eps64_def)
  have Bpos: "1 / 2 \<le> B" using pb(2) by (simp add: e42)
  have A2: "A \<le> 2" using pb(1) by (simp add: e42)
  have A1: "1 \<le> A" unfolding A_def by (rule one_le_pow_u)
  from float_sum_bounds [OF xs _ f0 T [unfolded sum_skipna_def]]
  have tb: "B * S \<le> T" "T \<le> A * S" "0 \<le> T"
    by (simp_all add: A_def B_def S_def)
  from tb(3) T0 have Tpos: "0 < T" by simp
  have S0: "0 \<le> S" unfolding S_def using xs by (intro sum_list_nonneg) simp
  have ST: "S / T \<le> 1 / B"
  proof -
    have "S * B \<le> T * 1" using tb(1) by (simp add: mult.commute)
    then show ?thesis using Tpos Bpos by (simp add: field_simps)
  qed
  have TS: "1 / A \<le> S / T"
  proof -
    have "T * 1 \<le> S * A" using tb(2) by (simp add: mult.commute)
    then show ?thesis using Tpos A1 by (simp add: field_simps)
  qed
  have B2: "1 / B \<le> 2" using Bpos by (simp add: field_simps)
  have cell: "\<forall>x \<in> set xs. 0 \<le> x \<and> x / T \<le> 2"
  proof
    fix x assume m: "x \<in> set xs"
    with xs have x0: "0 \<le> x" by simp
    have "x \<le> S" unfolding S_def using m xs by (intro member_le_sum_list) simp_all
    then have "x / T \<le> S / T" using Tpos by (simp add: divide_right_mono)
    with ST B2 x0 show "0 \<le> x \<and> x / T \<le> 2" by simp
  qed
  from percent_cells [OF cell Tpos] obtain ps where ps:
    "map (\<lambda>v. fmul (fdiv v (Fin T)) (Fin 100)) (map Fin xs) = map Fin ps"
    "length ps = length xs" "\<forall>p \<in> set ps. 0 \<le> p \<and> float64 p"
    "100 * (1 - u64) * (1 - u64) * (S / T) - real (length xs) * (101 * eta64) \<le> sum_list ps"
    "sum_list ps \<le> 100 * (1 + u64) * (1 + u64) * (S / T) + real (length xs) * (201 * eta64)"
    unfolding S_def by blast
  define P where "P = sum_list ps"
  define c where "c = (1000::real) * (201 * eta64)"
  have c0: "0 \<le> c" unfolding c_def using eta64_pos by simp
  have csmall: "c \<le> 1 / 2 ^ 1000" by (simp add: c_def eta64_def)
  have nl: "real (length xs) \<le> 1000" using n by simp
  have k1: "real (length xs) * (201 * eta64) \<le> c"
    unfolding c_def using nl eta64_pos by (intro mult_right_mono) simp_all
  have k2: "real (length xs) * (101 * eta64) \<le> c"
  proof -
    have "real (length xs) * (101 * eta64) \<le> 1000 * (101 * eta64)"
      using nl eta64_pos by (intro mult_right_mono) simp_all
    also have "\<dots> \<le> c" unfolding c_def using eta64_pos by simp
    finally show ?thesis .
  qed
  have uu: "(1 + u64) * (1 + u64) \<le> 1 + eps64" "1 - eps64 \<le> (1 - u64) * (1 - u64)"
    by (simp_all add: u64_def eps64_def)
  have eps01: "0 \<le> eps64" "eps64 \<le> 1" by (simp_all add: eps64_def)
  have Phi: "P \<le> 100 * (1 + eps64) * (1 / B) + c"
  proof -
    have "100 * (1 + u64) * (1 + u64) * (S / T) = 100 * ((1 + u64) * (1 + u64)) * (S / T)"
      by simp
    also have "\<dots> \<le> 100 * (1 + eps64) * (1 / B)"
      using uu(1) ST S0 Tpos eps01 by (intro mult_mono) simp_all
    finally show ?thesis using ps(5) k1 unfolding P_def by linarith
  qed
  have Plo: "100 * (1 - eps64) * (1 / A) - c \<le> P"
  proof -
    have "100 * (1 - eps64) * (1 / A) \<le> 100 * ((1 - u64) * (1 - u64)) * (S / T)"
      using uu(2) TS A1 eps01 u64_pos by (intro mult_mono) simp_all
    also have "\<dots> = 100 * (1 - u64) * (1 - u64) * (S / T)" by simp
    finally show ?thesis using ps(4) k2 unfolding P_def by linarith
  qed
  have P0: "0 \<le> P" unfolding P_def using ps(3) by (intro sum_list_nonneg) simp
  have P500: "P \<le> 500"
  proof -
    have "100 * (1 + eps64) * (1 / B) \<le> 100 * 2 * 2"
      using B2 eps01 Bpos by (intro mult_mono) simp_all
    moreover have "c \<le> 1"
    proof -
      have "(1::real) / 2 ^ 1000 \<le> 1" by simp
      with csmall show ?thesis by linarith
    qed
    ultimately show ?thesis using Phi by linarith
  qed
  have "(1 + u64) ^ length ps * (0 + sum_list ps) \<le> 2 * 500"
    unfolding ps(2) using A2 P500 P0 A1 unfolding A_def P_def by (intro mult_mono) simp_all
  also have "\<dots> \<le> (2::real) ^ 1023" by simp
  finally have "(1 + u64) ^ length ps * (0 + sum_list ps) \<le> 2 ^ 1023" .
  from float_sum_finite [OF ps(3) _ f0 this] obtain s where
    s: "foldl skipna_add (Fin 0) (map Fin ps) = Fin s" by auto
  from float_sum_bounds [OF ps(3) _ f0 s]
  have sb: "B * P \<le> s" "s \<le> A * P"
    by (simp_all add: A_def B_def P_def ps(2))
  have hi: "s \<le> (1 + eps64) * (100 * (1 + eps64) * (1 / (1 - eps64)) + 1 / 2 ^ 1000)"
  proof -
    have "1 / B \<le> 1 / (1 - eps64)"
      using pb(2) eps01 by (intro divide_left_mono) (simp_all add: e42)
    then have "100 * (1 + eps64) * (1 / B) \<le> 100 * (1 + eps64) * (1 / (1 - eps64))"
      using eps01 by (intro mult_left_mono) simp_all
    with Phi csmall have "P \<le> 100 * (1 + eps64) * (1 / (1 - eps64)) + 1 / 2 ^ 1000"
      by linarith
    then have "A * P \<le> (1 + eps64) * (100 * (1 + eps64) * (1 / (1 - eps64)) + 1 / 2 ^ 1000)"
      using pb(1) P0 A1 by (intro mult_mono) simp_all
    with sb(2) show ?thesis by linarith
  qed
  have lo: "(1 - eps64) * (100 * (1 - eps64) * (1 / (1 + eps64)) - 1 / 2 ^ 1000) \<le> s"
  proof -
    have "1 / (1 + eps64) \<le> 1 / A"
      using pb(1) A1 by (intro divide_left_mono) simp_all
    then have "100 * (1 - eps64) * (1 / (1 + eps64)) \<le> 100 * (1 - eps64) * (1 / A)"
      using eps01 by (intro mult_left_mono) simp_all
    with Plo csmall have q: "100 * (1 - eps64) * (1 / (1 + eps64)) - 1 / 2 ^ 1000 \<le> P"
      by linarith
    have q0: "0 \<le> 100 * (1 - eps64) * (1 / (1 + eps64)) - 1 / 2 ^ 1000"
      by (simp add: e42)
    have "(1 - eps64) * (100 * (1 - eps64) * (1 / (1 + eps64)) - 1 / 2 ^ 1000) \<le> B * P"
      using pb(2) q q0 eps01 P0 by (intro mult_mono) simp_all
    with sb(1) show ?thesis by linarith
  qed
  have h2: "(1 + eps64) * (100 * (1 + eps64) * (1 / (1 - eps64)) + 1 / 2 ^ 1000) \<le> 100 + 1 / 10 ^ 9"
    by (simp add: e42)
  have l2: "100 - 1 / 10 ^ 9 \<le> (1 - eps64) * (100 * (1 - eps64) * (1 / (1 + eps64)) - 1 / 2 ^ 1000)"
    by (simp add: e42)
  from hi h2 have H: "s \<le> 100 + 1 / 10 ^ 9" by (rule order_trans)
  from l2 lo have L: "100 - 1 / 10 ^ 9 \<le> s" by (rule order_trans)
  from H L have "\<bar>s - 100\<bar> \<le> 1 / 10 ^ 9" unfolding abs_le_iff by linarith
  with ps(1) s show ?thesis unfolding sum_skipna_def by blast
qed

subsection \<open>The transform on a row\<close>

lemma percent_zero_total:
  "map (\<lambda>v. fmul (fdiv v (Fin 0)) (Fin 100)) (map Fin xs) =
     map (\<lambda>x. if x = 0 then NaN else if 0 < x then PInf else NInf) xs"
  by (induction xs) simp_all

text \<open>
  Claim C2, as the code has it.  \<open>percent_mix\<close> keeps the columns and the number of rows,
  and in a row of finite cells it replaces each cell \<open>x\<close> by \<open>x / total * 100\<close>, computed
  in \<^verbatim>\<open>float64\<close> from the \<^verbatim>\<open>float64\<close> total of the row.  When the total is zero, no
  cell becomes \<open>0.0\<close>: a zero cell becomes NaN and a non-zero cell becomes plus or minus
  infinity, since the division is not guarded.  When the total is finite and not zero and
  the cells are non-negative floats, at most a thousand of them, the transformed cells
  sum to 100 within floating tolerance: the \<^verbatim>\<open>float64\<close> sum differs from 100 by at most
  \<open>1 / 10 ^ 9\<close>.
\<close>

theorem percent_mix_finite_row:
  assumes "i < length (rows df)" and "rows df ! i = (d, map Fin xs)"
  shows "columns (percent_mix df) = columns df \<and>
         length (rows (percent_mix df)) = length (rows df) \<and>
         rows (percent_mix df) ! i =
           (d, map (\<lambda>x. fmul (fdiv (Fin x) (sum_skipna (map Fin xs))) (Fin 100)) xs) \<and>
         (sum_skipna (map Fin xs) = Fin 0 \<longrightarrow>
            rows (percent_mix df) ! i =
              (d, map (\<lambda>x. if x = 0 then NaN else if 0 < x then PInf else NInf) xs)) \<and>
         (\<forall>T. sum_skipna (map Fin xs) = Fin T \<and> T \<noteq> 0 \<and>
              (\<forall>x \<in> set xs. 0 \<le> x \<and> float64 x) \<and> length xs \<le> 1000 \<longrightarrow>
              (\<exists>s. sum_skipna (snd (rows (percent_mix df) ! i)) = Fin s \<and>
                   \<bar>s - 100\<bar> \<le> 1 / 10 ^ 9))"
proof -
  have r: "rows (percent_mix df) ! i =
             (d, map (\<lambda>v. fmul (fdiv v (sum_skipna (map Fin xs))) (Fin 100)) (map Fin xs))"
    using assms by (simp add: percent_mix_def percent_mix_row_def)
  have 1: "columns (percent_mix df) = columns df"
    and 2: "length (rows (percent_mix df)) = length (rows df)"
    by (simp_all add: percent_mix_def)
  have 3: "rows (percent_mix df) ! i =
           (d, map (\<lambda>x. fmul (fdiv (Fin x) (sum_skipna (map Fin xs))) (Fin 100)) xs)"
    unfolding r by (simp add: comp_def)
  have 4: "rows (percent_mix df) ! i =
              (d, map (\<lambda>x. if x = 0 then NaN else if 0 < x then PInf else NInf) xs)"
    if "sum_skipna (map Fin xs) = Fin 0"
    unfolding r that by (simp only: percent_zero_total)
  have 5: "\<exists>s. sum_skipna (snd (rows (percent_mix df) ! i)) = Fin s \<and> \<bar>s - 100\<bar> \<le> 1 / 10 ^ 9"
    if h: "sum_skipna (map Fin xs) = Fin T \<and> T \<noteq> 0 \<and>
           (\<forall>x \<in> set xs. 0 \<le> x \<and> float64 x) \<and> length xs \<le> 1000" for T
  proof -
    from h have a: "\<forall>x \<in> set xs. 0 \<le> x \<and> float64 x" and b: "length xs \<le> 1000"
      and c: "sum_skipna (map Fin xs) = Fin T" and e: "T \<noteq> 0" by simp_all
    from percent_row_tolerance [OF a b c e] obtain ps s where
      p: "map (\<lambda>v. fmul (fdiv v (Fin T)) (Fin 100)) (map Fin xs) = map Fin ps"
      and s: "sum_skipna (map Fin ps) = Fin s" "\<bar>s - 100\<bar> \<le> 1 / 10 ^ 9" by blast
    have "snd (rows (percent_mix df) ! i) = map Fin ps"
      unfolding r c snd_conv by (rule p)
    with s show ?thesis by auto
  qed
  from 1 2 3 4 5 show ?thesis by blast
qed

text \<open>
  The theorem at \<open>thirds\<close>: the row of January has total 3, and its percentages, which
  are rounded, sum to 100 within the tolerance; the row of February has total 0.
\<close>

theorem percent_mix_finite_row_witness:
  "(\<exists>s. sum_skipna (snd (rows (percent_mix thirds) ! 0)) = Fin s \<and> \<bar>s - 100\<bar> \<le> 1 / 10 ^ 9) \<and>
   rows (percent_mix thirds) ! 1 = ((2020, 2, 1), [NaN, NaN])"
proof -
  have t: "sum_skipna (map Fin [1, 2]) = Fin 3"
    by (simp add: sum_skipna_def skipna_add_def round64_eval)
  have z: "sum_skipna (map Fin [0, 0]) = Fin 0"
    by (simp add: sum_skipna_def skipna_add_def)
  have f: "\<forall>x \<in> set [1, 2 :: real]. 0 \<le> x \<and> float64 x"
    by (simp add: float64_def round64_eval)
  have a: "rows thirds ! 0 = ((2020, 1, 1), map Fin [1, 2])"
    and b: "rows thirds ! 1 = ((2020, 2, 1), map Fin [0, 0])"
    and l: "0 < length (rows thirds)" "1 < length (rows thirds)"
    by (simp_all add: thirds_def)
  have h: "sum_skipna (map Fin [1, 2]) = Fin 3 \<and> (3::real) \<noteq> 0 \<and>
           (\<forall>x \<in> set [1, 2 :: real]. 0 \<le> x \<and> float64 x) \<and> length [1, 2 :: real] \<le> 1000"
    using t f by simp
  from percent_mix_finite_row [OF l(1) a] h
  have 1: "\<exists>s. sum_skipna (snd (rows (percent_mix thirds) ! 0)) = Fin s \<and> \<bar>s - 100\<bar> \<le> 1 / 10 ^ 9"
    by blast
  from percent_mix_finite_row [OF l(2) b] z
  have "rows (percent_mix thirds) ! 1 =
          ((2020, 2, 1), map (\<lambda>x. if x = 0 then NaN else if 0 < x then PInf else NInf) [0, 0 :: real])"
    by blast
  then have 2: "rows (percent_mix thirds) ! 1 = ((2020, 2, 1), [NaN, NaN])"
    by simp
  from 1 2 show ?thesis ..
qed

text \<open>
  Claim C2 as stated fails on a row whose total is zero: the transformed cells of the
  all-zero row are NaN, not \<open>0.0\<close>.
\<close>

theorem percent_mix_zero_total_counterexample:
  "rows (percent_mix \<lparr>columns = [''Coal'', ''Wind''], rows = [((2020, 1, 1), [Fin 0, Fin 0])]\<rparr>)
     = [((2020, 1, 1), [NaN, NaN])] \<and> NaN \<noteq> Fin 0"
  by (simp add: percent_mix_def percent_mix_row_def sum_skipna_def skipna_add_def)

text \<open>
  A row of two finite, non-negative cells whose total overflows: the total is plus
  infinity, and both transformed cells are \<open>0.0\<close>.
\<close>

lemma percent_mix_overflow_row:
  "percent_mix_row (d, [Fin (2 ^ 1023), Fin (2 ^ 1023)]) = (d, [Fin 0, Fin 0])"
proof -
  have "(2::real) ^ 1024 \<le> 2 ^ 1023 + 2 ^ 1023" by simp
  then have o: "round64 (2 ^ 1023 + 2 ^ 1023) = PInf" by (rule round64_overflow)
  have t: "sum_skipna [Fin (2 ^ 1023), Fin (2 ^ 1023)] = PInf"
    unfolding sum_skipna_def skipna_add_def
    by (simp only: foldl.simps fval.simps if_False fadd.simps add_0 round64_2_1023 o)
  show ?thesis
    unfolding percent_mix_row_def Let_def snd_conv fst_conv t
    by (simp only: list.map fdiv.simps fmul.simps mult_zero_left round64_0)
qed

section \<open>Aggregation and normalisation in sequence\<close>

lemmas pm_defs = percent_mix_def percent_mix_row_def sum_skipna_def skipna_add_def
  round64_eval
lemmas agg_defs = aggregate_annual_def drop_column_def column_sums_def group_keys_def
  year_of_def skipna_add_def Let_def round64_eval

lemma two_months_agg:
  "aggregate_annual two_months =
   \<lparr>columns = [''Coal'', ''Wind''], rows = [((2020, 1, 1), [Fin 10, Fin 6])]\<rparr>"
  by (simp add: two_months_def agg_defs)

lemma two_months_agg_pm:
  "percent_mix (aggregate_annual two_months) =
   \<lparr>columns = [''Coal'', ''Wind''], rows = [((2020, 1, 1), [Fin 62.5, Fin 37.5])]\<rparr>"
  unfolding two_months_agg by (simp add: pm_defs)

lemma two_months_pm:
  "percent_mix two_months =
   \<lparr>columns = [''Coal'', ''Wind''],
      rows = [((2020, 1, 1), [Fin 25, Fin 75]), ((2020, 2, 1), [Fin 75, Fin 25])]\<rparr>"
  by (simp add: two_months_def pm_defs)

lemma two_months_pm_agg:
  "aggregate_annual (percent_mix two_months) =
   \<lparr>columns = [''Coal'', ''Wind''], rows = [((2020, 1, 1), [Fin 100, Fin 100])]\<rparr>"
  unfolding two_months_pm by (simp add: agg_defs)

lemma two_months_agg_pm_agg:
  "aggregate_annual (percent_mix (aggregate_annual two_months)) =
   \<lparr>columns = [''Coal'', ''Wind''], rows = [((2020, 1, 1), [Fin 62.5, Fin 37.5])]\<rparr>"
  unfolding two_months_agg_pm by (simp add: agg_defs)

lemma two_months_agg_pm_agg_pm:
  "percent_mix (aggregate_annual (percent_mix (aggregate_annual two_months))) =
   \<lparr>columns = [''Coal'', ''Wind''], rows = [((2020, 1, 1), [Fin 62.5, Fin 37.5])]\<rparr>"
  unfolding two_months_agg_pm_agg by (simp add: pm_defs)

lemma two_months_filter: "filter_years 2020 2020 two_months = two_months"
  by (simp add: filter_years_def year_of_def two_months_def)

text \<open>
  Claim C3.  On the two months of 2020 of \<open>two_months\<close>, aggregating and then
  normalising gives the mix of the annual totals, 62.5 to 37.5; normalising and then
  aggregating gives the sum of the monthly percentages, 100 and 100.  The two orders
  differ, and the annual percent path of \<open>update_plot_frame\<close> returns the first.
\<close>

theorem aggregate_percent_not_commute:
  "percent_mix (aggregate_annual two_months) =
     \<lparr>columns = [''Coal'', ''Wind''], rows = [((2020, 1, 1), [Fin 62.5, Fin 37.5])]\<rparr> \<and>
   aggregate_annual (percent_mix two_months) =
     \<lparr>columns = [''Coal'', ''Wind''], rows = [((2020, 1, 1), [Fin 100, Fin 100])]\<rparr> \<and>
   percent_mix (aggregate_annual two_months) \<noteq> aggregate_annual (percent_mix two_months) \<and>
   update_plot_frame ''annual'' ''percent'' (2020, 2020) two_months =
     percent_mix (aggregate_annual two_months)"
proof (intro conjI)
  show "percent_mix (aggregate_annual two_months) =
     \<lparr>columns = [''Coal'', ''Wind''], rows = [((2020, 1, 1), [Fin 62.5, Fin 37.5])]\<rparr>"
    by (rule two_months_agg_pm)
  show "aggregate_annual (percent_mix two_months) =
     \<lparr>columns = [''Coal'', ''Wind''], rows = [((2020, 1, 1), [Fin 100, Fin 100])]\<rparr>"
    by (rule two_months_pm_agg)
  show "percent_mix (aggregate_annual two_months) \<noteq> aggregate_annual (percent_mix two_months)"
    unfolding two_months_agg_pm two_months_pm_agg by simp
  have "update_plot_frame ''annual'' ''percent'' (2020, 2020) two_months =
          percent_mix (aggregate_annual (percent_mix (aggregate_annual
            (filter_years 2020 2020 two_months))))"
    by (simp add: update_plot_frame_def)
  also have "\<dots> = percent_mix (aggregate_annual (percent_mix (aggregate_annual two_months)))"
    by (simp only: two_months_filter)
  also have "\<dots> = \<lparr>columns = [''Coal'', ''Wind''], rows = [((2020, 1, 1), [Fin 62.5, Fin 37.5])]\<rparr>"
    by (rule two_months_agg_pm_agg_pm)
  also have "\<dots> = percent_mix (aggregate_annual two_months)"
    by (rule two_months_agg_pm [symmetric])
  finally show "update_plot_frame ''annual'' ''percent'' (2020, 2020) two_months =
     percent_mix (aggregate_annual two_months)" .
qed

subsection \<open>Applying the transform twice\<close>

lemma cancelling_pm:
  "percent_mix cancelling_month =
   \<lparr>columns = [''Coal'', ''Wind''], rows = [((2020, 1, 1), [PInf, NInf])]\<rparr>"
  by (simp add: cancelling_month_def pm_defs)

lemma cancelling_pm_pm:
  "percent_mix (percent_mix cancelling_month) =
   \<lparr>columns = [''Coal'', ''Wind''], rows = [((2020, 1, 1), [NaN, NaN])]\<rparr>"
  unfolding cancelling_pm by (simp add: pm_defs)

lemma cancelling_filter: "filter_years 2020 2020 cancelling_month = cancelling_month"
  by (simp add: filter_years_def year_of_def cancelling_month_def)

text \<open>
  Claim C8.  On \<open>cancelling_month\<close> one application of \<open>percent_mix\<close> gives plus and
  minus infinity, and a second application gives NaN in both cells: the total of the
  infinite cells is NaN.  The monthly percent path of \<open>update_plot_frame\<close> applies the
  transform twice and returns the second frame.
\<close>

theorem percent_mix_twice_differs:
  "percent_mix cancelling_month =
     \<lparr>columns = [''Coal'', ''Wind''], rows = [((2020, 1, 1), [PInf, NInf])]\<rparr> \<and>
   percent_mix (percent_mix cancelling_month) =
     \<lparr>columns = [''Coal'', ''Wind''], rows = [((2020, 1, 1), [NaN, NaN])]\<rparr> \<and>
   percent_mix (percent_mix cancelling_month) \<noteq> percent_mix cancelling_month \<and>
   update_plot_frame ''monthly'' ''percent'' (2020, 2020) cancelling_month =
     percent_mix (percent_mix cancelling_month)"
proof (intro conjI)
  show "percent_mix cancelling_month =
     \<lparr>columns = [''Coal'', ''Wind''], rows = [((2020, 1, 1), [PInf, NInf])]\<rparr>"
    by (rule cancelling_pm)
  show "percent_mix (percent_mix cancelling_month) =
     \<lparr>columns = [''Coal'', ''Wind''], rows = [((2020, 1, 1), [NaN, NaN])]\<rparr>"
    by (rule cancelling_pm_pm)
  show "percent_mix (percent_mix cancelling_month) \<noteq> percent_mix cancelling_month"
    unfolding cancelling_pm_pm unfolding cancelling_pm by simp
  have "update_plot_frame ''monthly'' ''percent'' (2020, 2020) cancelling_month =
          percent_mix (percent_mix (filter_years 2020 2020 cancelling_month))"
    by (simp add: update_plot_frame_def)
  then show "update_plot_frame ''monthly'' ''percent'' (2020, 2020) cancelling_month =
     percent_mix (percent_mix cancelling_month)"
    by (simp only: cancelling_filter)
qed

section \<open>Properties of the loader\<close>

lemmas run_defs = UpdateSQLite_def read_excel_file_def insert_data_def to_sql_def
  create_newTable_def connect_def logged_def with_db_def current_db_def drop_table_def Let_def

text \<open>
  Claim C7.  When the spreadsheet does not exist, the run prints the message, exits with
  status 1, and leaves the databases and the log of database calls as they were: no
  connection is opened and no statement is executed.
\<close>

theorem UpdateSQLite_missing_file:
  assumes "files w file_name = None"
  shows "UpdateSQLite parse file_name db_name w =
           (SystemExit 1,
            w\<lparr>stdout := stdout w @ [''Error: The file '' @ quote file_name @ '' was not found.'']\<rparr>) \<and>
         databases (snd (UpdateSQLite parse file_name db_name w)) = databases w \<and>
         db_log (snd (UpdateSQLite parse file_name db_name w)) = db_log w"
  using assms by (simp add: UpdateSQLite_def read_excel_file_def)

theorem UpdateSQLite_missing_file_witness:
  "UpdateSQLite example_parse ''Absent.xlsx'' ''Energy.db'' example_world =
     (SystemExit 1,
      example_world\<lparr>stdout := [''Error: The file '' @ quote ''Absent.xlsx'' @ '' was not found.'']\<rparr>)"
  using UpdateSQLite_missing_file [of example_world "''Absent.xlsx''" example_parse "''Energy.db''"]
  by (simp add: example_world_def)

subsection \<open>Running the loader twice\<close>

lemma first_run_post:
  assumes "UpdateSQLite parse file_name db_name w = (Returned (), w1)"
  shows "files w1 = files w \<and>
         (\<exists>db t. databases w1 db_name = Some db \<and> db ''EnergyMix'' = Some t \<and> db ''Mix'' = None)"
  using assms
  by (auto simp: run_defs
           split: option.splits list.splits sum.splits outcome.splits prod.splits if_splits)

lemma first_run_pre:
  assumes "UpdateSQLite parse file_name db_name w = (Returned (), w1)"
  shows "\<exists>df s. read_excel_file file_name w = (Returned df, w) \<and> remap_dataFrame parse df = Inr s"
  using assms
  by (auto simp: UpdateSQLite_def read_excel_file_def
           split: option.splits list.splits sum.splits outcome.splits prod.splits if_splits)

lemma read_excel_file_cong:
  "files w1 = files w \<Longrightarrow> read_excel_file f w = (Returned df, w) \<Longrightarrow>
   read_excel_file f w1 = (Returned df, w1)"
  by (auto simp: read_excel_file_def split: option.splits list.splits)

lemma example_remap:
  "remap_dataFrame example_parse ((''Date'', [Text ''1973-01'', Text ''1973-02'']) # tl example_sheet) =
     Inr [(''Date'', [Text ''1973-01'', Text ''1973-02'']),
          (''Coal'', [Num (round64 12.34), Num (Fin 0)]),
          (''GasDry'', [Num (Fin 2), Num (Fin (- 5))]),
          (''GasLiquid'', [Num (Fin 3), Num (Fin 1)]),
          (''CrudeOil'', [Num (Fin 4), Num (Fin 1)]),
          (''Nuclear'', [Num (Fin 5), Num (Fin 1)]),
          (''Hydro'', [Num (Fin 6), Num (Fin 1)]),
          (''Geothermal'', [Num (Fin 7), Num (Fin 1)]),
          (''Solar'', [Num (Fin 8), Num (Fin 0)]),
          (''Wind'', [Num (Fin 9), Num (Fin 1)]),
          (''Biomass'', [Num (Fin 10), Num (Fin 1)])]"
  by (simp add: remap_dataFrame_def select_columns_def columns_mapping_def rename_columns_def
      example_sheet_def example_parse_def to_numeric_def fillna_def)

lemma example_first_run:
  "fst (UpdateSQLite example_parse ''Mix.xlsx'' ''Energy.db'' example_world) = Returned ()"
  by (simp add: UpdateSQLite_def read_excel_file_def example_world_def example_sheet_def
       example_remap [unfolded example_sheet_def, simplified]
       insert_data_def to_sql_def create_newTable_def connect_def logged_def with_db_def
       current_db_def drop_table_def Let_def frame_rows_def key_values_def)

text \<open>
  Claim C1 on the code.  Whenever a run of the loader succeeds, the next run against the
  same spreadsheet and the same database does not: \<open>drop_table\<close> drops the table
  \<^verbatim>\<open>Mix\<close>, the table \<^verbatim>\<open>EnergyMix\<close> of the first run is still there, and
  \<open>create_newTable\<close> raises.  The tables stay as the first run left them.
\<close>

theorem UpdateSQLite_second_run_fails:
  assumes "UpdateSQLite parse file_name db_name w = (Returned (), w1)"
  shows "fst (UpdateSQLite parse file_name db_name w1) =
           Raised (OperationalError ''table EnergyMix already exists'')
         \<and> databases (snd (UpdateSQLite parse file_name db_name w1)) = databases w1"
proof -
  from first_run_pre [OF assms] obtain df s where
    r: "read_excel_file file_name w = (Returned df, w)" and m: "remap_dataFrame parse df = Inr s"
    by blast
  from first_run_post [OF assms] obtain db t where
    f: "files w1 = files w" and d: "databases w1 db_name = Some db"
    and e: "db ''EnergyMix'' = Some t" and x: "db ''Mix'' = None"
    by blast
  have r1: "read_excel_file file_name w1 = (Returned df, w1)"
    using f r by (rule read_excel_file_cong)
  have i: "db(''Mix'' := None) = db" using x by (rule fun_upd_idem)
  have j: "(databases w1)(db_name \<mapsto> db) = databases w1"
    using d by (rule fun_upd_idem)
  show ?thesis
    by (simp add: UpdateSQLite_def r1 m connect_def d logged_def with_db_def current_db_def
        drop_table_def create_newTable_def e i j)
qed

text \<open>The example spreadsheet, loaded twice into a new database.\<close>

theorem UpdateSQLite_second_run_fails_witness:
  "fst (UpdateSQLite example_parse ''Mix.xlsx'' ''Energy.db'' example_world) = Returned () \<and>
   fst (UpdateSQLite example_parse ''Mix.xlsx'' ''Energy.db''
          (snd (UpdateSQLite example_parse ''Mix.xlsx'' ''Energy.db'' example_world))) =
     Raised (OperationalError ''table EnergyMix already exists'')"
proof -
  have h: "UpdateSQLite example_parse ''Mix.xlsx'' ''Energy.db'' example_world =
             (Returned (), snd (UpdateSQLite example_parse ''Mix.xlsx'' ''Energy.db'' example_world))"
    using example_first_run by (simp add: prod_eq_iff)
  from UpdateSQLite_second_run_fails [OF h] example_first_run show ?thesis by simp
qed

subsection \<open>Column selection and coercion\<close>

lemma filter_label_first:
  assumes "map_of df n = Some xs"
  shows "\<exists>rest. filter (\<lambda>c. fst c = n) df = (n, xs) # rest"
  using assms by (induction df) (auto split: if_splits)

lemma filter_label_single:
  assumes "length (filter (\<lambda>c. fst c = n) df) \<le> 1" and "map_of df n = Some xs"
  shows "filter (\<lambda>c. fst c = n) df = [(n, xs)]"
proof -
  from filter_label_first [OF assms(2)] obtain rest where
    r: "filter (\<lambda>c. fst c = n) df = (n, xs) # rest" ..
  with assms(1) have "rest = []" by simp
  with r show ?thesis by simp
qed

lemma label_present: "n \<in> set (map fst df) \<Longrightarrow> \<exists>xs. map_of df n = Some xs"
  by (metis image_set map_of_eq_None_iff not_Some_eq)

lemma columns_mapping_keys_distinct: "distinct (map fst columns_mapping)"
  by (simp add: columns_mapping_def)

lemma columns_mapping_distinct: "distinct (map snd columns_mapping)"
  by (simp add: columns_mapping_def)

lemma columns_mapping_not_Date:
  "(src, dst) \<in> set columns_mapping \<Longrightarrow> dst \<noteq> ''Date'' \<and> src \<noteq> ''Date''"
  by (auto simp: columns_mapping_def)

lemma renamed_block:
  assumes m: "(src, dst) \<in> set columns_mapping" and l: "src \<in> set labels"
  shows "length (filter (\<lambda>c. fst c = src) df)
           \<le> length (filter (\<lambda>c. fst c = dst)
                 (rename_columns columns_mapping
                    (concat (map (\<lambda>n. filter (\<lambda>c. fst c = n) df) labels))))"
proof -
  let ?B = "filter (\<lambda>c. fst c = src) df"
  let ?R = "\<lambda>(c, xs). (case map_of columns_mapping c of Some c' \<Rightarrow> c' | None \<Rightarrow> c, xs :: cell list)"
  from l obtain pre post where "labels = pre @ src # post" by (meson split_list)
  then have s: "concat (map (\<lambda>n. filter (\<lambda>c. fst c = n) df) labels) =
                  concat (map (\<lambda>n. filter (\<lambda>c. fst c = n) df) pre) @ ?B @
                  concat (map (\<lambda>n. filter (\<lambda>c. fst c = n) df) post)"
    by simp
  have k: "map_of columns_mapping src = Some dst"
    using columns_mapping_keys_distinct m by (rule map_of_is_SomeI)
  have "filter (\<lambda>c. fst c = dst) (map ?R ?B) = map ?R ?B"
    using k by (auto simp: filter_id_conv)
  then have "length ?B = length (filter (\<lambda>c. fst c = dst) (map ?R ?B))" by simp
  also have "\<dots> \<le> length (filter (\<lambda>c. fst c = dst)
                 (rename_columns columns_mapping
                    (concat (map (\<lambda>n. filter (\<lambda>c. fst c = n) df) labels))))"
    unfolding s rename_columns_def by simp
  finally show ?thesis .
qed


lemma concat_singletons:
  assumes "\<forall>x \<in> set xs. f x = [g x]"
  shows "concat (map f xs) = map g xs"
  using assms by (induction xs) simp_all

lemma remap_dataFrame_Inr:
  assumes "remap_dataFrame parse df = Inr sub"
  shows "sub = map (\<lambda>c. (''Date'', snd c)) (filter (\<lambda>c. fst c = ''Date'') df) @
               map (\<lambda>(src, dst). (dst, map (\<lambda>x. Num (fillna (Fin 0) (to_numeric parse x)))
                                          (the (map_of df src))))
                   columns_mapping
         \<and> (\<forall>n \<in> set (''Date'' # map fst columns_mapping). map_of df n \<noteq> None)"
proof -
  let ?labels = "''Date'' # map fst columns_mapping"
  let ?sel = "concat (map (\<lambda>n. filter (\<lambda>c. fst c = n) df) ?labels)"
  let ?cols = "rename_columns columns_mapping ?sel"
  let ?C = "\<lambda>(col, xs). if col \<noteq> ''Date''
                 then (col, map (\<lambda>x. Num (fillna (Fin 0) (to_numeric parse x))) xs)
                 else (col, xs)"
  from assms have present: "\<forall>n \<in> set ?labels. n \<in> set (map fst df)"
    by (auto simp: remap_dataFrame_def select_columns_def Let_def filter_empty_conv
             split: sum.splits if_splits)
  then have sel: "select_columns ?labels df = Inr ?sel"
    by (simp add: select_columns_def Let_def filter_empty_conv)
  from assms have rep: "\<forall>col \<in> set (map fst ?cols).
                          \<not> (col \<noteq> ''Date'' \<and> 1 < length (filter (\<lambda>c. fst c = col) ?cols))"
    and sub: "sub = map ?C ?cols"
    unfolding remap_dataFrame_def sel
    by (simp_all add: Let_def filter_empty_conv split: if_splits)
  have some: "\<forall>n \<in> set ?labels. map_of df n \<noteq> None"
    using present label_present by fastforce
  have single: "filter (\<lambda>c. fst c = src) df = [(src, the (map_of df src))]"
    if m: "(src, dst) \<in> set columns_mapping" for src dst
  proof -
    have l: "src \<in> set ?labels" using m by (simp add: rev_image_eqI)
    with some obtain xs where xs: "map_of df src = Some xs" by auto
    have "length (filter (\<lambda>c. fst c = src) df) \<le> 1"
    proof (rule ccontr)
      assume "\<not> length (filter (\<lambda>c. fst c = src) df) \<le> 1"
      with renamed_block [OF m l, of df]
      have big: "1 < length (filter (\<lambda>c. fst c = dst) ?cols)" by simp
      then have "filter (\<lambda>c. fst c = dst) ?cols \<noteq> []" by auto
      then obtain c where "c \<in> set ?cols" "fst c = dst"
        by (auto simp: filter_empty_conv)
      then have "dst \<in> set (map fst ?cols)" by auto
      with rep big columns_mapping_not_Date [OF m] show False by blast
    qed
    from filter_label_single [OF this xs] xs show ?thesis by simp
  qed
  have "concat (map (\<lambda>n. filter (\<lambda>c. fst c = n) df) (map fst columns_mapping))
          = map (\<lambda>n. (n, the (map_of df n))) (map fst columns_mapping)"
    using single by (intro concat_singletons) auto
  then have sel': "?sel = filter (\<lambda>c. fst c = ''Date'') df @
                      map (\<lambda>n. (n, the (map_of df n))) (map fst columns_mapping)"
    by simp
  have d: "map ?C (rename_columns columns_mapping (filter (\<lambda>c. fst c = ''Date'') df))
             = map (\<lambda>c. (''Date'', snd c)) (filter (\<lambda>c. fst c = ''Date'') df)"
    by (auto simp: rename_columns_def columns_mapping_def)
  have "sub = map (\<lambda>c. (''Date'', snd c)) (filter (\<lambda>c. fst c = ''Date'') df) @
               map (\<lambda>(src, dst). (dst, map (\<lambda>x. Num (fillna (Fin 0) (to_numeric parse x)))
                                          (the (map_of df src))))
                   columns_mapping"
    unfolding sub sel' using d
    by (simp add: rename_columns_def columns_mapping_def)
  with some show ?thesis by blast
qed

lemma map_of_renamed:
  assumes "distinct (map snd m)" and "(src, dst) \<in> set m"
  shows "map_of (map (\<lambda>(a, b). (b, f a)) m) dst = Some (f src)"
  using assms by (induction m) (auto simp: rev_image_eqI)

lemma remap_dataFrame_column:
  assumes "remap_dataFrame parse df = Inr sub" and "(src, dst) \<in> set columns_mapping"
  shows "\<exists>xs. map_of df src = Some xs \<and>
              map_of sub dst = Some (map (\<lambda>x. Num (fillna (Fin 0) (to_numeric parse x))) xs)"
proof -
  note r = remap_dataFrame_Inr [OF assms(1)]
  from assms(2) have "src \<in> set (''Date'' # map fst columns_mapping)"
    by (simp add: rev_image_eqI)
  with r obtain xs where xs: "map_of df src = Some xs" by blast
  have n: "map_of (map (\<lambda>c. (''Date'', snd c)) (filter (\<lambda>c. fst c = ''Date'') df)) dst = None"
    using columns_mapping_not_Date [OF assms(2)] by (auto simp: map_of_eq_None_iff)
  have "map_of sub dst =
          Some (map (\<lambda>x. Num (fillna (Fin 0) (to_numeric parse x))) (the (map_of df src)))"
    using map_of_renamed [OF columns_mapping_distinct assms(2),
        of "\<lambda>a. map (\<lambda>x. Num (fillna (Fin 0) (to_numeric parse x))) (the (map_of df a))"] n
    by (subst conjunct1 [OF r]) (simp add: map_of_append map_add_def)
  with xs show ?thesis by simp
qed

text \<open>
  Claim C5.  When the remapping succeeds, the result has the columns headed \<^verbatim>\<open>Date\<close>
  and then the ten renamed source columns, the date column is unchanged, and every cell of
  every source
  column is coerced: a number other than NaN is kept as it is, a text the parser reads as
  such a number becomes that number, and a text the parser does not read, like an empty
  cell, becomes \<open>0.0\<close>.
\<close>

theorem remap_dataFrame_coercion:
  assumes "remap_dataFrame parse df = Inr sub"
  shows "map fst sub =
           replicate (length (filter (\<lambda>c. fst c = ''Date'') df)) ''Date'' @
           map snd columns_mapping \<and>
         map_of sub ''Date'' = map_of df ''Date'' \<and>
         (\<forall>(src, dst) \<in> set columns_mapping.
            \<exists>xs ys. map_of df src = Some xs \<and> map_of sub dst = Some ys \<and>
              length ys = length xs \<and>
              (\<forall>i < length xs.
                 (\<forall>v. xs ! i = Num v \<longrightarrow> v \<noteq> NaN \<longrightarrow> ys ! i = Num v) \<and>
                 (xs ! i = Num NaN \<longrightarrow> ys ! i = Num (Fin 0)) \<and>
                 (\<forall>s. xs ! i = Text s \<longrightarrow> parse s = None \<longrightarrow> ys ! i = Num (Fin 0)) \<and>
                 (\<forall>s v. xs ! i = Text s \<longrightarrow> parse s = Some v \<longrightarrow> v \<noteq> NaN \<longrightarrow> ys ! i = Num v)))"
proof (intro conjI ballI)
  note r = remap_dataFrame_Inr [OF assms]
  show "map fst sub =
           replicate (length (filter (\<lambda>c. fst c = ''Date'') df)) ''Date'' @
           map snd columns_mapping"
    by (subst conjunct1 [OF r]) (simp add: case_prod_unfold comp_def map_replicate_const)
  from r obtain d where d: "map_of df ''Date'' = Some d" by auto
  from filter_label_first [OF d] obtain rest where
    f: "filter (\<lambda>c. fst c = ''Date'') df = (''Date'', d) # rest" ..
  show "map_of sub ''Date'' = map_of df ''Date''"
    by (subst conjunct1 [OF r]) (simp add: d f)
next
  fix p assume p: "p \<in> set columns_mapping"
  obtain src dst where sd: "p = (src, dst)" by (cases p)
  from remap_dataFrame_column [OF assms p [unfolded sd]] obtain xs where
    xs: "map_of df src = Some xs" and
    ys: "map_of sub dst = Some (map (\<lambda>x. Num (fillna (Fin 0) (to_numeric parse x))) xs)"
    by blast
  show "case p of (src, dst) \<Rightarrow>
          \<exists>xs ys. map_of df src = Some xs \<and> map_of sub dst = Some ys \<and>
              length ys = length xs \<and>
              (\<forall>i < length xs.
                 (\<forall>v. xs ! i = Num v \<longrightarrow> v \<noteq> NaN \<longrightarrow> ys ! i = Num v) \<and>
                 (xs ! i = Num NaN \<longrightarrow> ys ! i = Num (Fin 0)) \<and>
                 (\<forall>s. xs ! i = Text s \<longrightarrow> parse s = None \<longrightarrow> ys ! i = Num (Fin 0)) \<and>
                 (\<forall>s v. xs ! i = Text s \<longrightarrow> parse s = Some v \<longrightarrow> v \<noteq> NaN \<longrightarrow> ys ! i = Num v))"
    unfolding sd prod.case xs ys by (simp add: fillna_def to_numeric_def)
qed

text \<open>
  In the example the header \<^verbatim>\<open>Coal Production\<close> holds the texts \<^verbatim>\<open>12.34\<close> and
  \<^verbatim>\<open>Not Available\<close>.
\<close>

theorem remap_dataFrame_coercion_witness:
  "(case remap_dataFrame example_parse
           ((''Date'', [Text ''1973-01'', Text ''1973-02'']) # tl example_sheet) of
      Inr sub \<Rightarrow> map_of sub ''Coal'' = Some [Num (round64 12.34), Num (Fin 0)]
    | Inl e \<Rightarrow> False)"
  using remap_dataFrame_coercion [OF example_remap]
  by (simp add: example_remap)

text \<open>
  Claim C6, as the code has it.  When the remapping succeeds, every cell of every
  production column is a float that is not NaN: it is \<open>0.0\<close>, or the number of the input
  cell, or the number the parser reads from the text of the input cell.  Nothing makes it
  non-negative, and it is finite only when that number is.
\<close>

theorem remap_dataFrame_no_null:
  assumes "remap_dataFrame parse df = Inr sub"
  shows "\<forall>(src, dst) \<in> set columns_mapping.
            \<exists>xs ys. map_of df src = Some xs \<and> map_of sub dst = Some ys \<and>
              length ys = length xs \<and>
              (\<forall>i < length xs. \<exists>v. ys ! i = Num v \<and> v \<noteq> NaN \<and>
                 (v = Fin 0 \<or> xs ! i = Num v \<or> (\<exists>s. xs ! i = Text s \<and> parse s = Some v)))"
proof (intro ballI)
  fix p assume p: "p \<in> set columns_mapping"
  obtain src dst where sd: "p = (src, dst)" by (cases p)
  from remap_dataFrame_column [OF assms p [unfolded sd]] obtain xs where
    xs: "map_of df src = Some xs" and
    ys: "map_of sub dst = Some (map (\<lambda>x. Num (fillna (Fin 0) (to_numeric parse x))) xs)"
    by blast
  have "\<exists>v. fillna (Fin 0) (to_numeric parse c) = v \<and> v \<noteq> NaN \<and>
          (v = Fin 0 \<or> c = Num v \<or> (\<exists>s. c = Text s \<and> parse s = Some v))" for c
    by (cases c) (auto simp: fillna_def to_numeric_def split: option.splits)
  then show "case p of (src, dst) \<Rightarrow>
          \<exists>xs ys. map_of df src = Some xs \<and> map_of sub dst = Some ys \<and>
              length ys = length xs \<and>
              (\<forall>i < length xs. \<exists>v. ys ! i = Num v \<and> v \<noteq> NaN \<and>
                 (v = Fin 0 \<or> xs ! i = Num v \<or> (\<exists>s. xs ! i = Text s \<and> parse s = Some v)))"
    unfolding sd prod.case xs ys by simp
qed

text \<open>In the example the header \<^verbatim>\<open>Solar Energy Production\<close> has an empty cell.\<close>

theorem remap_dataFrame_no_null_witness:
  "(case remap_dataFrame example_parse
           ((''Date'', [Text ''1973-01'', Text ''1973-02'']) # tl example_sheet) of
      Inr sub \<Rightarrow> map_of sub ''Solar'' = Some [Num (Fin 8), Num (Fin 0)]
    | Inl e \<Rightarrow> False)"
  using remap_dataFrame_no_null [OF example_remap]
  by (simp add: example_remap)

text \<open>
  Claim C6 as stated fails on a negative number: the example spreadsheet is accepted, and
  the row of February 1973 in the table \<^verbatim>\<open>EnergyMix\<close> has \<open>- 5\<close> in the column
  \<^verbatim>\<open>GasDry\<close>.
\<close>

theorem loaded_negative_counterexample:
  "map_option trows
     (current_db ''Energy.db''
        (snd (UpdateSQLite example_parse ''Mix.xlsx'' ''Energy.db'' example_world)) ''EnergyMix'') =
     Some [[Text ''1973-01'', Num (round64 12.34), Num (Fin 2), Num (Fin 3), Num (Fin 4), Num (Fin 5),
            Num (Fin 6), Num (Fin 7), Num (Fin 8), Num (Fin 9), Num (Fin 10)],
           [Text ''1973-02'', Num (Fin 0), Num (Fin (- 5)), Num (Fin 1), Num (Fin 1), Num (Fin 1),
            Num (Fin 1), Num (Fin 1), Num (Fin 0), Num (Fin 1), Num (Fin 1)]] \<and>
   (- 5 :: real) < 0"
  by (simp add: UpdateSQLite_def read_excel_file_def example_world_def example_sheet_def
       example_remap [unfolded example_sheet_def, simplified]
       insert_data_def to_sql_def create_newTable_def connect_def logged_def with_db_def
       current_db_def drop_table_def Let_def frame_rows_def key_values_def)

section \<open>Properties of the annual aggregation\<close>

lemma foldl_map2_nth:
  assumes "length acc = n" and "\<forall>vs \<in> set vss. length vs = n"
  shows "foldl (\<lambda>acc vs. map2 skipna_add acc vs) acc vss =
           map (\<lambda>j. foldl skipna_add (acc ! j) (map (\<lambda>vs. vs ! j) vss)) [0..<n]"
  using assms
proof (induction vss arbitrary: acc)
  case Nil
  then have "map ((!) acc) [0..<n] = acc" by (auto simp: map_nth)
  then show ?case by simp
next
  case (Cons v vss)
  have l: "length (map2 skipna_add acc v) = n" using Cons.prems by simp
  have "foldl (\<lambda>acc vs. map2 skipna_add acc vs) (map2 skipna_add acc v) vss =
          map (\<lambda>j. foldl skipna_add (map2 skipna_add acc v ! j) (map (\<lambda>vs. vs ! j) vss)) [0..<n]"
    using Cons.prems by (intro Cons.IH [OF l]) simp
  also have "\<dots> = map (\<lambda>j. foldl skipna_add (acc ! j) (map (\<lambda>vs. vs ! j) (v # vss))) [0..<n]"
    using Cons.prems by (intro map_cong refl) simp
  finally show ?case by simp
qed

lemma column_sums_nth:
  assumes "\<forall>vs \<in> set vss. length vs = n"
  shows "column_sums n vss = map (\<lambda>j. sum_skipna (map (\<lambda>vs. vs ! j) vss)) [0..<n]"
  unfolding column_sums_def sum_skipna_def
  using foldl_map2_nth [of "replicate n (Fin 0)" n vss] assms by simp


lemma drop_column_absent: "c \<notin> set (columns df) \<Longrightarrow> drop_column c df = df"
  by (simp add: drop_column_def)





subsection \<open>Aggregating twice\<close>

text \<open>
  Adding a cell to \<open>0.0\<close> returns the cell when the cell is itself a sum: a finite sum
  is a float and needs no second rounding.
\<close>

lemma fadd_zero_round64: "fadd (Fin 0) (round64 x) = round64 x"
proof (cases "round64 x")
  case (Fin r)
  then show ?thesis using round64_idem [OF Fin] by simp
qed simp_all

lemma fadd_zero_fadd: "fadd (Fin 0) (fadd a b) = fadd a b"
  by (cases a; cases b) (simp_all add: fadd_zero_round64)

lemma skipna_add_settled:
  assumes "fadd (Fin 0) acc = acc"
  shows "fadd (Fin 0) (skipna_add acc v) = skipna_add acc v"
  using assms by (simp add: skipna_add_def fadd_zero_fadd)

lemma map2_skipna_settled:
  assumes "\<forall>c \<in> set acc. fadd (Fin 0) c = c"
  shows "\<forall>c \<in> set (map2 skipna_add acc vs). fadd (Fin 0) c = c"
proof
  fix c assume "c \<in> set (map2 skipna_add acc vs)"
  then obtain a b where m: "(a, b) \<in> set (zip acc vs)" and c: "c = skipna_add a b" by auto
  from m have "a \<in> set acc" by (rule set_zip_leftD)
  with assms have "fadd (Fin 0) a = a" by blast
  then show "fadd (Fin 0) c = c" unfolding c by (rule skipna_add_settled)
qed

lemma foldl_map2_settled:
  assumes "\<forall>c \<in> set acc. fadd (Fin 0) c = c"
  shows "\<forall>c \<in> set (foldl (\<lambda>acc vs. map2 skipna_add acc vs) acc vss). fadd (Fin 0) c = c"
  using assms
proof (induction vss arbitrary: acc)
  case Nil
  then show ?case by simp
next
  case (Cons vs vss)
  from Cons.IH [OF map2_skipna_settled [OF Cons.prems]] show ?case by simp
qed

lemma column_sums_settled: "\<forall>c \<in> set (column_sums n vss). fadd (Fin 0) c = c"
  unfolding column_sums_def by (rule foldl_map2_settled) simp

lemma foldl_map2_length:
  "length (foldl (\<lambda>acc vs. map2 skipna_add acc vs) acc vss) \<le> length acc"
proof (induction vss arbitrary: acc)
  case Nil
  show ?case by simp
next
  case (Cons vs vss)
  have "length (foldl (\<lambda>acc vs. map2 skipna_add acc vs) (map2 skipna_add acc vs) vss)
          \<le> length (map2 skipna_add acc vs)"
    by (rule Cons.IH)
  then show ?case by simp
qed

lemma column_sums_length: "length (column_sums n vss) \<le> n"
  using foldl_map2_length [of "replicate n (Fin 0)" vss] by (simp add: column_sums_def)

lemma map2_replicate:
  assumes "length s \<le> n"
  shows "map2 f (replicate n z) s = map (f z) s"
  using assms
proof (induction s arbitrary: n)
  case Nil
  show ?case by simp
next
  case (Cons v s)
  then obtain k where n: "n = Suc k" by (cases n) auto
  with Cons show ?case by simp
qed

lemma column_sums_single:
  assumes "length s \<le> n"
  shows "column_sums n [s] = map (skipna_add (Fin 0)) s"
  using map2_replicate [OF assms] by (simp add: column_sums_def)

lemma map_fixed_iff: "map f xs = xs \<longleftrightarrow> (\<forall>x \<in> set xs. f x = x)"
  by (induction xs) auto

lemma filter_key_distinct:
  assumes "distinct K" and "y \<in> set K"
  shows "filter (\<lambda>k. k = y) K = [y]"
  using assms by (induction K) (auto simp: filter_empty_conv)

lemma aggregate_annual_annual:
  assumes "''Year'' \<notin> set cs" and "sorted K" and "distinct K"
    and "\<forall>y \<in> set K. length (S y) \<le> length cs"
  shows "aggregate_annual \<lparr>columns = cs, rows = map (\<lambda>y. ((y, 1, 1), S y)) K\<rparr> =
           \<lparr>columns = cs, rows = map (\<lambda>y. ((y, 1, 1), map (skipna_add (Fin 0)) (S y))) K\<rparr>"
proof -
  let ?A = "\<lparr>columns = cs, rows = map (\<lambda>y. ((y, 1, 1), S y)) K\<rparr>"
  have d: "drop_column ''Year'' ?A = ?A" using assms(1) by (simp add: drop_column_def)
  have "map (\<lambda>r. year_of (fst r)) (rows ?A) = K" by (simp add: comp_def year_of_def)
  then have k: "group_keys ?A = K"
    using assms(2,3) by (simp add: group_keys_def sorted_sort_id)
  have g: "column_sums (length cs)
             (map snd (filter (\<lambda>r. year_of (fst r) = y) (map (\<lambda>y. ((y, 1, 1), S y)) K)))
           = map (skipna_add (Fin 0)) (S y)"
    if y: "y \<in> set K" for y
  proof -
    have "filter (\<lambda>r. year_of (fst r) = y) (map (\<lambda>y. ((y, 1, 1), S y)) K)
            = map (\<lambda>y. ((y, 1, 1), S y)) (filter (\<lambda>k. k = y) K)"
      by (simp add: filter_map comp_def year_of_def)
    also have "\<dots> = [((y, 1, 1), S y)]"
      by (simp add: filter_key_distinct [OF assms(3) y])
    finally show ?thesis using assms(4) y by (simp add: column_sums_single)
  qed
  show ?thesis
    unfolding aggregate_annual_def d Let_def k using g by simp
qed

lemma drop_column_no_column: "c \<notin> set (columns (drop_column c df))"
  by (simp add: drop_column_def)

lemma aggregate_annual_twice:
  "aggregate_annual (aggregate_annual df) = aggregate_annual df \<longleftrightarrow>
     (\<forall>r \<in> set (rows (aggregate_annual df)). NaN \<notin> set (snd r))"
proof -
  let ?d = "drop_column ''Year'' df"
  let ?S = "\<lambda>y. column_sums (length (columns ?d))
                   (map snd (filter (\<lambda>r. year_of (fst r) = y) (rows ?d)))"
  let ?K = "group_keys ?d"
  have e: "aggregate_annual df =
             \<lparr>columns = columns ?d, rows = map (\<lambda>y. ((y, 1, 1), ?S y)) ?K\<rparr>"
    by (simp add: aggregate_annual_def Let_def)
  have l: "\<forall>y \<in> set ?K. length (?S y) \<le> length (columns ?d)"
    by (simp add: column_sums_length)
  have k: "sorted ?K" "distinct ?K"
    by (simp_all add: group_keys_def)
  have t: "aggregate_annual (aggregate_annual df) =
             \<lparr>columns = columns ?d,
              rows = map (\<lambda>y. ((y, 1, 1), map (skipna_add (Fin 0)) (?S y))) ?K\<rparr>"
    unfolding e by (rule aggregate_annual_annual [OF drop_column_no_column k l])
  have c: "skipna_add (Fin 0) v = v \<longleftrightarrow> v \<noteq> NaN" if "v \<in> set (?S y)" for v y
    using column_sums_settled that by (auto simp: skipna_add_def)
  have "aggregate_annual (aggregate_annual df) = aggregate_annual df \<longleftrightarrow>
          (\<forall>y \<in> set ?K. map (skipna_add (Fin 0)) (?S y) = ?S y)"
    unfolding t unfolding e by (auto simp: map_eq_conv)
  also have "\<dots> \<longleftrightarrow> (\<forall>y \<in> set ?K. \<forall>v \<in> set (?S y). v \<noteq> NaN)"
    using c by (simp add: map_fixed_iff)
  also have "\<dots> \<longleftrightarrow> (\<forall>r \<in> set (rows (aggregate_annual df)). NaN \<notin> set (snd r))"
    unfolding e by auto
  finally show ?thesis .
qed

text \<open>
  Claim C10, as the code has it.  For every input, \<open>aggregate_annual\<close> applied to its own
  result returns that result exactly when the result has no NaN cell: each row of the
  result is the only row of its year and is dated January 1, a cell that is a number or
  an infinity is its own sum, and a NaN cell is skipped, so that the second pass writes
  \<open>0.0\<close> in its place.  Likewise the annual path of \<open>update_plot_frame\<close> for raw values,
  which aggregates twice, returns the frame aggregated once exactly when that frame has
  no NaN cell.
\<close>

theorem aggregate_annual_idempotent_iff:
  "(aggregate_annual (aggregate_annual df) = aggregate_annual df \<longleftrightarrow>
      (\<forall>r \<in> set (rows (aggregate_annual df)). NaN \<notin> set (snd r))) \<and>
   (update_plot_frame ''annual'' ''raw'' (start_year, end_year) df =
      aggregate_annual (filter_years start_year end_year df) \<longleftrightarrow>
      (\<forall>r \<in> set (rows (aggregate_annual (filter_years start_year end_year df))).
         NaN \<notin> set (snd r)))"
proof
  show "aggregate_annual (aggregate_annual df) = aggregate_annual df \<longleftrightarrow>
      (\<forall>r \<in> set (rows (aggregate_annual df)). NaN \<notin> set (snd r))"
    by (rule aggregate_annual_twice)
  have "update_plot_frame ''annual'' ''raw'' (start_year, end_year) df =
          aggregate_annual (aggregate_annual (filter_years start_year end_year df))"
    by (simp add: update_plot_frame_def)
  then show "update_plot_frame ''annual'' ''raw'' (start_year, end_year) df =
      aggregate_annual (filter_years start_year end_year df) \<longleftrightarrow>
      (\<forall>r \<in> set (rows (aggregate_annual (filter_years start_year end_year df))).
         NaN \<notin> set (snd r))"
    by (simp only: aggregate_annual_twice)
qed

text \<open>The theorem at the two months of \<open>two_months\<close>, whose annual sums are 10 and 6.\<close>

theorem aggregate_annual_idempotent_iff_witness:
  "aggregate_annual (aggregate_annual two_months) =
     \<lparr>columns = [''Coal'', ''Wind''], rows = [((2020, 1, 1), [Fin 10, Fin 6])]\<rparr> \<and>
   update_plot_frame ''annual'' ''raw'' (2020, 2020) two_months =
     \<lparr>columns = [''Coal'', ''Wind''], rows = [((2020, 1, 1), [Fin 10, Fin 6])]\<rparr>"
proof -
  have n: "\<forall>r \<in> set (rows (aggregate_annual two_months)). NaN \<notin> set (snd r)"
    unfolding two_months_agg by simp
  have m: "\<forall>r \<in> set (rows (aggregate_annual (filter_years 2020 2020 two_months))).
             NaN \<notin> set (snd r)"
    unfolding two_months_filter two_months_agg by simp
  from aggregate_annual_idempotent_iff [of two_months 2020 2020] n m
  have "aggregate_annual (aggregate_annual two_months) = aggregate_annual two_months \<and>
        update_plot_frame ''annual'' ''raw'' (2020, 2020) two_months =
          aggregate_annual (filter_years 2020 2020 two_months)"
    by blast
  then show ?thesis by (simp only: two_months_filter two_months_agg)
qed

text \<open>
  Claim C10 as stated fails on \<open>opposite_infinities\<close>: the first pass sums plus and
  minus infinity to NaN, and the second pass, which skips the NaN, returns \<open>0.0\<close>.
\<close>

lemma opposite_infinities_agg:
  "aggregate_annual opposite_infinities =
     \<lparr>columns = [''Coal''], rows = [((2020, 1, 1), [NaN])]\<rparr>"
  by (simp add: opposite_infinities_def agg_defs)

lemma opposite_infinities_agg_agg:
  "aggregate_annual (aggregate_annual opposite_infinities) =
     \<lparr>columns = [''Coal''], rows = [((2020, 1, 1), [Fin 0])]\<rparr>"
  unfolding opposite_infinities_agg by (simp add: agg_defs)

theorem aggregate_annual_twice_counterexample:
  "aggregate_annual opposite_infinities =
     \<lparr>columns = [''Coal''], rows = [((2020, 1, 1), [NaN])]\<rparr> \<and>
   aggregate_annual (aggregate_annual opposite_infinities) =
     \<lparr>columns = [''Coal''], rows = [((2020, 1, 1), [Fin 0])]\<rparr> \<and>
   aggregate_annual (aggregate_annual opposite_infinities) \<noteq>
     aggregate_annual opposite_infinities"
proof (intro conjI)
  show "aggregate_annual opposite_infinities =
     \<lparr>columns = [''Coal''], rows = [((2020, 1, 1), [NaN])]\<rparr>"
    by (rule opposite_infinities_agg)
  show "aggregate_annual (aggregate_annual opposite_infinities) =
     \<lparr>columns = [''Coal''], rows = [((2020, 1, 1), [Fin 0])]\<rparr>"
    by (rule opposite_infinities_agg_agg)
  show "aggregate_annual (aggregate_annual opposite_infinities) \<noteq>
     aggregate_annual opposite_infinities"
    unfolding opposite_infinities_agg_agg unfolding opposite_infinities_agg by simp
qed

section \<open>Properties of the pie categories\<close>

lemma update_pie_totals_expand:
  assumes "wf_frame df" and "''Year'' \<notin> set (columns df)"
  shows "update_pie_totals df y =
           zip (columns df)
             (map (\<lambda>j. sum_skipna (map (\<lambda>m. snd m ! j)
                          (filter (\<lambda>m. year_of (fst m) = y) (rows df))))
                  [0..<length (columns df)])"
proof -
  have "column_sums (length (columns df)) (map snd (filter (\<lambda>r. year_of (fst r) = y) (rows df)))
           = map (\<lambda>j. sum_skipna (map (\<lambda>m. snd m ! j) (filter (\<lambda>m. year_of (fst m) = y) (rows df))))
               [0..<length (columns df)]"
    using assms(1)
    by (subst column_sums_nth) (auto simp: wf_frame_def comp_def)
  then show ?thesis
    by (simp add: update_pie_totals_def drop_column_absent [OF assms(2)])
qed

text \<open>
  Claim C9.  For a frame whose rows have one cell per column, with distinct column names
  and no numeric column named \<^verbatim>\<open>Year\<close>, the pie data of a year are the six categories
  Gas, Coal, Nuclear, Wind, Solar and All Others, in this order, where Gas is the total of
  \<^verbatim>\<open>GasDry\<close> plus the total of \<^verbatim>\<open>GasLiquid\<close>, All Others is the total of \<^verbatim>\<open>Hydro\<close>
  plus \<^verbatim>\<open>Geothermal\<close> plus \<^verbatim>\<open>Biomass\<close>, and the other four are the totals of their
  columns.  The total of a column of the frame is the sum of its cells over the rows of
  the year, and the total of a column the frame does not have is 0.
\<close>

theorem update_pie_categories:
  assumes "wf_frame df" and "distinct (columns df)" and "''Year'' \<notin> set (columns df)"
  shows "update_pie_data df y =
           [(''Gas'', fadd (series_get (update_pie_totals df y) ''GasDry'' (Fin 0))
                           (series_get (update_pie_totals df y) ''GasLiquid'' (Fin 0))),
            (''Coal'', series_get (update_pie_totals df y) ''Coal'' (Fin 0)),
            (''Nuclear'', series_get (update_pie_totals df y) ''Nuclear'' (Fin 0)),
            (''Wind'', series_get (update_pie_totals df y) ''Wind'' (Fin 0)),
            (''Solar'', series_get (update_pie_totals df y) ''Solar'' (Fin 0)),
            (''All Others'',
               fadd (fadd (series_get (update_pie_totals df y) ''Hydro'' (Fin 0))
                          (series_get (update_pie_totals df y) ''Geothermal'' (Fin 0)))
                    (series_get (update_pie_totals df y) ''Biomass'' (Fin 0)))] \<and>
         (\<forall>j < length (columns df).
            series_get (update_pie_totals df y) (columns df ! j) (Fin 0) =
              sum_skipna (map (\<lambda>m. snd m ! j) (filter (\<lambda>m. year_of (fst m) = y) (rows df)))) \<and>
         (\<forall>c. c \<notin> set (columns df) \<longrightarrow> series_get (update_pie_totals df y) c (Fin 0) = Fin 0)"
proof (intro conjI allI impI)
  note e = update_pie_totals_expand [OF assms(1,3)]
  show "update_pie_data df y =
           [(''Gas'', fadd (series_get (update_pie_totals df y) ''GasDry'' (Fin 0))
                           (series_get (update_pie_totals df y) ''GasLiquid'' (Fin 0))),
            (''Coal'', series_get (update_pie_totals df y) ''Coal'' (Fin 0)),
            (''Nuclear'', series_get (update_pie_totals df y) ''Nuclear'' (Fin 0)),
            (''Wind'', series_get (update_pie_totals df y) ''Wind'' (Fin 0)),
            (''Solar'', series_get (update_pie_totals df y) ''Solar'' (Fin 0)),
            (''All Others'',
               fadd (fadd (series_get (update_pie_totals df y) ''Hydro'' (Fin 0))
                          (series_get (update_pie_totals df y) ''Geothermal'' (Fin 0)))
                    (series_get (update_pie_totals df y) ''Biomass'' (Fin 0)))]"
    by (simp add: update_pie_data_def Let_def)
next
  fix j assume j: "j < length (columns df)"
  note e = update_pie_totals_expand [OF assms(1,3)]
  let ?sums = "map (\<lambda>j. sum_skipna (map (\<lambda>m. snd m ! j)
                          (filter (\<lambda>m. year_of (fst m) = y) (rows df))))
                  [0..<length (columns df)]"
  have "map_of (zip (columns df) ?sums) (columns df ! j) = Some (?sums ! j)"
    using assms(2) j by (intro map_of_zip_nth) simp_all
  then show "series_get (update_pie_totals df y) (columns df ! j) (Fin 0) =
              sum_skipna (map (\<lambda>m. snd m ! j) (filter (\<lambda>m. year_of (fst m) = y) (rows df)))"
    unfolding e series_get_def using j by simp
next
  fix c assume c: "c \<notin> set (columns df)"
  note e = update_pie_totals_expand [OF assms(1,3)]
  have "map_of (zip (columns df) zs) c = None" for zs :: "fval list"
    using c by (auto simp: map_of_eq_None_iff dest: set_zip_leftD)
  then show "series_get (update_pie_totals df y) c (Fin 0) = Fin 0"
    unfolding e series_get_def by simp
qed

lemma pie_year_eval:
  "update_pie_data pie_year 2020 =
     [(''Gas'', Fin 15), (''Coal'', Fin 20), (''Nuclear'', Fin 8), (''Wind'', Fin 3),
      (''Solar'', Fin 2), (''All Others'', Fin 2)]"
  by (simp add: update_pie_data_def update_pie_totals_def drop_column_def column_sums_def
      series_get_def skipna_add_def year_of_def pie_year_def Let_def round64_eval)

lemma coal_only_eval:
  "update_pie_data coal_only 2020 =
     [(''Gas'', Fin 0), (''Coal'', Fin 20), (''Nuclear'', Fin 0), (''Wind'', Fin 0),
      (''Solar'', Fin 0), (''All Others'', Fin 0)]"
  by (simp add: update_pie_data_def update_pie_totals_def drop_column_def column_sums_def
      series_get_def skipna_add_def year_of_def coal_only_def Let_def round64_eval)


text \<open>
  The totals gas dry 10, gas liquid 5, coal 20, nuclear 8, wind 3, solar 2, hydro 1,
  geothermal 0 and biomass 1; and a frame in which every column but one is missing.
\<close>

theorem update_pie_categories_witness:
  "wf_frame pie_year \<and> distinct (columns pie_year) \<and>
   update_pie_data pie_year 2020 =
     [(''Gas'', Fin 15), (''Coal'', Fin 20), (''Nuclear'', Fin 8), (''Wind'', Fin 3),
      (''Solar'', Fin 2), (''All Others'', Fin 2)] \<and>
   update_pie_data coal_only 2020 =
     [(''Gas'', Fin 0), (''Coal'', Fin 20), (''Nuclear'', Fin 0), (''Wind'', Fin 0),
      (''Solar'', Fin 0), (''All Others'', Fin 0)]"
proof -
  have w: "wf_frame pie_year" by (simp add: wf_frame_def pie_year_def)
  have d: "distinct (columns pie_year)" by (simp add: pie_year_def)
  have y: "''Year'' \<notin> set (columns pie_year)" by (simp add: pie_year_def)
  have w': "wf_frame coal_only" by (simp add: wf_frame_def coal_only_def)
  have d': "distinct (columns coal_only)" by (simp add: coal_only_def)
  have y': "''Year'' \<notin> set (columns coal_only)" by (simp add: coal_only_def)
  from update_pie_categories [OF w d y, of 2020] update_pie_categories [OF w' d' y', of 2020]
    pie_year_eval coal_only_eval w d
  show ?thesis by (simp only: simp_thms)
qed

end
